theory Spec2Isabelle
  imports Main
begin

section \<open>Identifiers and constants\<close>

text \<open>
  The storage core of RMDB: the LRU replacer (\<^verbatim>\<open>replacer/lru_replacer.cpp\<close>), the buffer pool
  manager (\<^verbatim>\<open>storage/buffer_pool_manager.cpp\<close>), the record file handle
  (\<^verbatim>\<open>record/rm_file_handle.cpp\<close>) and the record scan (\<^verbatim>\<open>record/rm_scan.cpp\<close>).

  C++ \<^verbatim>\<open>int\<close> values (page numbers, slot numbers, pin counts) are mathematical integers
  here; a frame index is a natural number, since frame indices only ever come from the
  pool's own free list and replacer.
\<close>

type_synonym frame_id_t = nat
type_synonym page_id_t = int

datatype PageId = PageId (fd: int) (page_no: page_id_t)

datatype Rid = Rid (page_no: int) (slot_no: int)

text \<open>
  Modelled from the spec: the sentinels \<^verbatim>\<open>INVALID_PAGE_ID\<close>, \<^verbatim>\<open>RM_NO_PAGE\<close> and
  \<^verbatim>\<open>RM_FIRST_RECORD_PAGE\<close> are declared in headers that are not among the sources. The two
  invalid page numbers have the value the code itself writes where it spells an invalid
  page number out (\<^verbatim>\<open>PageId{fd_, -1}\<close>, \<^verbatim>\<open>Rid{-1, -1}\<close>). Page 0 of a record file is reserved
  for the file header, so the first page that holds records is page 1.
\<close>

definition INVALID_PAGE_ID :: page_id_t where
  "INVALID_PAGE_ID = -1"

definition RM_NO_PAGE :: int where
  "RM_NO_PAGE = -1"

definition RM_FIRST_RECORD_PAGE :: int where
  "RM_FIRST_RECORD_PAGE = 1"

section \<open>Page contents\<close>

text \<open>
  Modelled from the spec: \<^verbatim>\<open>Page\<close>, \<^verbatim>\<open>RmPageHandle\<close>, \<^verbatim>\<open>RmPageHdr\<close> and \<^verbatim>\<open>Bitmap\<close> are
  declared in headers that are not among the sources. A frame holds the bytes of one page,
  laid out as page header, slot bitmap and slots. The record layer reads them only through
  the three views of \<^verbatim>\<open>RmPageHandle\<close>: the page header (\<^verbatim>\<open>page_hdr->num_records\<close>,
  \<^verbatim>\<open>page_hdr->next_free_page_no\<close>), the slot bitmap (\<^verbatim>\<open>Bitmap::is_set/set/reset\<close> on bit
  \<open>i\<close>) and the slot area (\<^verbatim>\<open>get_slot(i) = slots + i * record_size\<close>). The page data is
  modelled as these three views: two header integers, the bitmap as a function from bit
  index to bool (\<^verbatim>\<open>is_set\<close> reads it, \<^verbatim>\<open>set\<close> and \<^verbatim>\<open>reset\<close> update it at one index), and the
  slot area as a function from byte offset to byte. \<^verbatim>\<open>Page::reset_memory\<close> zeroes all of
  them.
\<close>

record page_data =
  num_records :: int
  next_free_page_no :: int
  bitmap :: "nat \<Rightarrow> bool"
  slots :: "nat \<Rightarrow> char"

definition zero_data :: page_data where
  "zero_data = \<lparr>num_records = 0, next_free_page_no = 0,
                 bitmap = (\<lambda>_. False), slots = (\<lambda>_. CHR 0x00)\<rparr>"

record Page =
  page_id :: PageId
  data :: page_data
  dirty :: bool
  pin_count :: int

section \<open>Disk manager\<close>

text \<open>
  Modelled from the spec: the disk manager (\<^verbatim>\<open>DiskManager\<close>) is not among the sources.
  \<^verbatim>\<open>read_page\<close> fills the buffer with the page's persisted bytes, \<^verbatim>\<open>write_page\<close> persists
  the buffer as the page's bytes, and \<^verbatim>\<open>allocate_page(fd)\<close> reserves and returns a new page
  number for file \<open>fd\<close>, or the invalid sentinel on failure. Whether a file can still grow
  is the field \<open>can_allocate\<close>.
\<close>

record DiskManager =
  persisted :: "PageId \<Rightarrow> page_data"
  fd2pageno :: "int \<Rightarrow> page_id_t"
  can_allocate :: "int \<Rightarrow> bool"

definition read_page :: "DiskManager \<Rightarrow> PageId \<Rightarrow> page_data" where
  "read_page d pid = persisted d pid"

definition write_page :: "DiskManager \<Rightarrow> PageId \<Rightarrow> page_data \<Rightarrow> DiskManager" where
  "write_page d pid buf = d\<lparr>persisted := (persisted d)(pid := buf)\<rparr>"

definition allocate_page :: "DiskManager \<Rightarrow> int \<Rightarrow> page_id_t \<times> DiskManager" where
  "allocate_page d f =
     (if can_allocate d f
      then (fd2pageno d f, d\<lparr>fd2pageno := (fd2pageno d)(f := fd2pageno d f + 1)\<rparr>)
      else (INVALID_PAGE_ID, d))"

section \<open>LRU replacer\<close>

text \<open>
  \<^verbatim>\<open>LRUlist_\<close> is the list of evictable frames, most recently unpinned first;
  \<^verbatim>\<open>LRUhash_\<close> maps a frame to its position in the list, and is modelled by its key set.
\<close>

record LRUReplacer =
  LRUlist :: "frame_id_t list"
  LRUhash :: "frame_id_t set"
  max_size :: nat

definition new_LRUReplacer :: "nat \<Rightarrow> LRUReplacer" where
  "new_LRUReplacer n = \<lparr>LRUlist = [], LRUhash = {}, max_size = n\<rparr>"

text \<open>The loop of \<^verbatim>\<open>victim\<close>, from the tail of the list towards its head.\<close>

fun victim_scan :: "frame_id_t set \<Rightarrow> frame_id_t list \<Rightarrow> frame_id_t option" where
  "victim_scan h [] = None"
| "victim_scan h (x # xs) = (if x \<in> h then Some x else victim_scan h xs)"

definition victim :: "LRUReplacer \<Rightarrow> LRUReplacer \<times> frame_id_t option" where
  "victim r =
     (if LRUlist r = [] then (r, None)
      else case victim_scan (LRUhash r) (rev (LRUlist r)) of
             Some f \<Rightarrow> (r\<lparr>LRUhash := LRUhash r - {f},
                           LRUlist := removeAll f (LRUlist r)\<rparr>, Some f)
           | None \<Rightarrow> (r, None))"

text \<open>
  \<^verbatim>\<open>pin\<close> erases the hash entry and the list node the entry points to, which is the one
  node that holds the frame (the list has no duplicates, see \<open>bpm_inv\<close>). The code reads
  the entry (\<^verbatim>\<open>it->second\<close>) after it has erased it from the hash table; the model takes the
  node the entry pointed to.
\<close>

definition pin :: "LRUReplacer \<Rightarrow> frame_id_t \<Rightarrow> LRUReplacer" where
  "pin r f =
     (if f \<in> LRUhash r
      then r\<lparr>LRUhash := LRUhash r - {f}, LRUlist := remove1 f (LRUlist r)\<rparr>
      else r)"

definition Size :: "LRUReplacer \<Rightarrow> nat" where
  "Size r = length (LRUlist r)"

definition unpin :: "LRUReplacer \<Rightarrow> frame_id_t \<Rightarrow> LRUReplacer" where
  "unpin r f =
     (if f \<notin> LRUhash r \<and> Size r < max_size r
      then r\<lparr>LRUlist := f # LRUlist r, LRUhash := insert f (LRUhash r)\<rparr>
      else r)"

section \<open>Buffer pool manager\<close>

record BufferPoolManager =
  pages :: "Page list"
  page_table :: "PageId \<Rightarrow> frame_id_t option"
  free_list :: "frame_id_t list"
  replacer :: LRUReplacer
  disk_manager :: DiskManager

text \<open>
  Modelled from the spec: the constructor is in the header, which is not among the
  sources. Every frame starts unassigned with pin count 0 and clean, all frames are on
  the free list, and the replacer tracks nothing.
\<close>

definition new_Page :: Page where
  "new_Page = \<lparr>page_id = PageId (-1) INVALID_PAGE_ID, data = zero_data,
               dirty = False, pin_count = 0\<rparr>"

definition new_BufferPoolManager :: "nat \<Rightarrow> DiskManager \<Rightarrow> BufferPoolManager" where
  "new_BufferPoolManager pool_size d =
     \<lparr>pages = replicate pool_size new_Page, page_table = (\<lambda>_. None),
      free_list = [0..<pool_size], replacer = new_LRUReplacer pool_size,
      disk_manager = d\<rparr>"

definition find_victim_page :: "BufferPoolManager \<Rightarrow> BufferPoolManager \<times> frame_id_t option" where
  "find_victim_page b =
     (case free_list b of
        f # rest \<Rightarrow> (b\<lparr>free_list := rest\<rparr>, Some f)
      | [] \<Rightarrow> (case victim (replacer b) of
                 (r, Some f) \<Rightarrow> (b\<lparr>replacer := r\<rparr>, Some f)
               | (r, None) \<Rightarrow> (b\<lparr>replacer := r\<rparr>, None)))"

definition update_page :: "BufferPoolManager \<Rightarrow> frame_id_t \<Rightarrow> PageId \<Rightarrow> BufferPoolManager" where
  "update_page b f new_page_id =
     (let page = pages b ! f;
          d = (if dirty page
               then write_page (disk_manager b) (page_id page) (data page)
               else disk_manager b);
          page1 = page\<lparr>dirty := False\<rparr>;
          tbl = ((page_table b)(page_id page1 := None))(new_page_id := Some f);
          page2 = page1\<lparr>data := zero_data, page_id := new_page_id\<rparr>
      in b\<lparr>disk_manager := d, page_table := tbl, pages := (pages b)[f := page2]\<rparr>)"

definition fetch_page :: "BufferPoolManager \<Rightarrow> PageId \<Rightarrow> BufferPoolManager \<times> frame_id_t option" where
  "fetch_page b pid =
     (case page_table b pid of
        Some f \<Rightarrow>
          (let page = pages b ! f;
               page1 = page\<lparr>pin_count := pin_count page + 1\<rparr>
           in (b\<lparr>pages := (pages b)[f := page1], replacer := pin (replacer b) f\<rparr>, Some f))
      | None \<Rightarrow>
          (case find_victim_page b of
             (b1, None) \<Rightarrow> (b1, None)
           | (b1, Some f) \<Rightarrow>
               (let b2 = update_page b1 f pid;
                    page = pages b2 ! f;
                    page1 = page\<lparr>data := read_page (disk_manager b2) pid\<rparr>;
                    page2 = page1\<lparr>pin_count := pin_count page1 + 1\<rparr>
                in (b2\<lparr>pages := (pages b2)[f := page2], replacer := pin (replacer b2) f\<rparr>,
                    Some f))))"

definition unpin_page :: "BufferPoolManager \<Rightarrow> PageId \<Rightarrow> bool \<Rightarrow> BufferPoolManager \<times> bool" where
  "unpin_page b pid is_dirty =
     (case page_table b pid of
        None \<Rightarrow> (b, False)
      | Some f \<Rightarrow>
          (let page = pages b ! f in
           if pin_count page \<le> 0 then (b, False)
           else
             (let page1 = page\<lparr>pin_count := pin_count page - 1\<rparr>;
                  r = (if pin_count page1 = 0 then unpin (replacer b) f else replacer b);
                  page2 = page1\<lparr>dirty := is_dirty\<rparr>
              in (b\<lparr>pages := (pages b)[f := page2], replacer := r\<rparr>, True))))"

definition flush_page :: "BufferPoolManager \<Rightarrow> PageId \<Rightarrow> BufferPoolManager \<times> bool" where
  "flush_page b pid =
     (case page_table b pid of
        None \<Rightarrow> (b, False)
      | Some f \<Rightarrow>
          (let page = pages b ! f;
               d = write_page (disk_manager b) pid (data page)
           in (b\<lparr>disk_manager := d, pages := (pages b)[f := page\<lparr>dirty := False\<rparr>]\<rparr>,
               True)))"

text \<open>
  \<^verbatim>\<open>new_page\<close> takes the file descriptor in \<^verbatim>\<open>page_id->fd\<close> and stores the allocated page
  number through the same pointer; the model returns the frame together with the
  completed page id.
\<close>

definition new_page :: "BufferPoolManager \<Rightarrow> int \<Rightarrow> BufferPoolManager \<times> (frame_id_t \<times> PageId) option" where
  "new_page b page_fd =
     (case find_victim_page b of
        (b1, None) \<Rightarrow> (b1, None)
      | (b1, Some f) \<Rightarrow>
          (case allocate_page (disk_manager b1) page_fd of
             (pno, d) \<Rightarrow>
               (let b2 = b1\<lparr>disk_manager := d\<rparr> in
                if pno = INVALID_PAGE_ID then (b2, None)
                else
                  (let pid = PageId page_fd pno;
                       b3 = update_page b2 f pid;
                       page = pages b3 ! f
                   in (b3\<lparr>replacer := pin (replacer b3) f,
                          pages := (pages b3)[f := page\<lparr>pin_count := 1\<rparr>]\<rparr>,
                       Some (f, pid))))))"

definition delete_page :: "BufferPoolManager \<Rightarrow> PageId \<Rightarrow> BufferPoolManager \<times> bool" where
  "delete_page b pid =
     (case page_table b pid of
        None \<Rightarrow> (b, True)
      | Some f \<Rightarrow>
          (let page = pages b ! f in
           if pin_count page \<noteq> 0 then (b, False)
           else
             (let d = write_page (disk_manager b) pid (data page)
              in (b\<lparr>disk_manager := d,
                     page_table := (page_table b)(pid := None),
                     pages := (pages b)[f := page\<lparr>data := zero_data\<rparr>],
                     free_list := free_list b @ [f]\<rparr>, True))))"

text \<open>
  \<^verbatim>\<open>flush_all_pages\<close> visits every entry of the page table; an entry of another file is
  skipped, and the frame of an entry of file \<open>fd\<close> is written under the page number the frame
  carries and marked clean. A function-valued page table cannot be enumerated, so the
  model visits the frames instead, in index order, and takes a frame when the table maps
  the page id the frame carries to it. In every reachable pool state these are exactly
  the table's entries (each entry maps a page id to a frame that carries this id, see
  \<open>bpm_inv\<close>), and each frame is written once, so the iteration order of the hash table
  makes no difference.
\<close>

definition flush_frame :: "int \<Rightarrow> BufferPoolManager \<Rightarrow> frame_id_t \<Rightarrow> BufferPoolManager" where
  "flush_frame f b i =
     (let page = pages b ! i in
      if page_table b (page_id page) = Some i \<and> fd (page_id page) = f
      then b\<lparr>disk_manager :=
               write_page (disk_manager b) (PageId f (PageId.page_no (page_id page))) (data page),
             pages := (pages b)[i := page\<lparr>dirty := False\<rparr>]\<rparr>
      else b)"

definition flush_all_pages :: "BufferPoolManager \<Rightarrow> int \<Rightarrow> BufferPoolManager" where
  "flush_all_pages b f = fold (\<lambda>i b'. flush_frame f b' i) [0..<length (pages b)] b"

section \<open>Record file handle\<close>

record RmFileHdr =
  record_size :: int
  num_pages :: int
  num_records_per_page :: int
  first_free_page_no :: int

text \<open>
  The handle holds the file header, the file descriptor (\<^verbatim>\<open>fd_\<close>) and a pointer to the
  buffer pool; the model carries the pool's state inside the handle.
\<close>

record RmFileHandle =
  file_hdr :: RmFileHdr
  file_fd :: int
  buffer_pool_manager :: BufferPoolManager

text \<open>
  What the C++ leaves undefined is a fault of the model: an access through the handle
  built around a null page (\<^verbatim>\<open>RmPageHandle(&file_hdr_, nullptr)\<close>), and a bitmap access at a
  negative slot number.
\<close>

datatype fault = NullPageHandle | NegativeSlot

text \<open>
  A page handle is the frame it points to; \<open>None\<close> is the handle around a null page.
  \<open>modify_data\<close> is a write through the handle's pointers into the frame.
\<close>

definition modify_data :: "BufferPoolManager \<Rightarrow> frame_id_t \<Rightarrow> (page_data \<Rightarrow> page_data) \<Rightarrow> BufferPoolManager" where
  "modify_data b f g = b\<lparr>pages := (pages b)[f := (pages b ! f)\<lparr>data := g (data (pages b ! f))\<rparr>]\<rparr>"

text \<open>
  \<^verbatim>\<open>memcpy(get_slot(slot_no), buf, record_size)\<close> and its converse: slot \<open>i\<close> starts at byte
  \<open>i * record_size\<close> of the slot area.
\<close>

definition write_slot :: "nat \<Rightarrow> nat \<Rightarrow> char list \<Rightarrow> page_data \<Rightarrow> page_data" where
  "write_slot off n buf d =
     d\<lparr>slots := (\<lambda>a. if off \<le> a \<and> a < off + n then buf ! (a - off) else slots d a)\<rparr>"

definition read_slot :: "nat \<Rightarrow> nat \<Rightarrow> page_data \<Rightarrow> char list" where
  "read_slot off n d = map (\<lambda>k. slots d (off + k)) [0..<n]"

definition slot_offset :: "RmFileHdr \<Rightarrow> int \<Rightarrow> nat" where
  "slot_offset h slot = nat slot * nat (record_size h)"

definition fetch_page_handle :: "RmFileHandle \<Rightarrow> int \<Rightarrow> BufferPoolManager \<times> frame_id_t option" where
  "fetch_page_handle fh pno =
     (if pno < 0 \<or> pno \<ge> num_pages (file_hdr fh) then (buffer_pool_manager fh, None)
      else fetch_page (buffer_pool_manager fh) (PageId (file_fd fh) pno))"

definition get_record :: "RmFileHandle \<Rightarrow> Rid \<Rightarrow> RmFileHandle \<times> char list option" where
  "get_record fh r =
     (case fetch_page_handle fh (Rid.page_no r) of
        (b, None) \<Rightarrow> (fh\<lparr>buffer_pool_manager := b\<rparr>, None)
      | (b, Some f) \<Rightarrow>
          (let fh1 = fh\<lparr>buffer_pool_manager := b\<rparr> in
           if slot_no r \<ge> num_records_per_page (file_hdr fh) \<or> slot_no r < 0 then (fh1, None)
           else (fh1, Some (read_slot (slot_offset (file_hdr fh) (slot_no r))
                              (nat (record_size (file_hdr fh))) (data (pages b ! f))))))"

definition create_new_page_handle :: "RmFileHandle \<Rightarrow> RmFileHandle \<times> frame_id_t option" where
  "create_new_page_handle fh =
     (case new_page (buffer_pool_manager fh) (file_fd fh) of
        (b, None) \<Rightarrow> (fh\<lparr>buffer_pool_manager := b\<rparr>, None)
      | (b, Some (f, pid)) \<Rightarrow>
          (let b1 = modify_data b f (\<lambda>d. d\<lparr>next_free_page_no := RM_NO_PAGE\<rparr>);
               b2 = modify_data b1 f (\<lambda>d. d\<lparr>num_records := 0\<rparr>)
           in (fh\<lparr>buffer_pool_manager := b2,
                  file_hdr := (file_hdr fh)\<lparr>num_pages := num_pages (file_hdr fh) + 1\<rparr>\<rparr>,
               Some f)))"

definition create_page_handle :: "RmFileHandle \<Rightarrow> RmFileHandle \<times> frame_id_t option" where
  "create_page_handle fh =
     (if first_free_page_no (file_hdr fh) = RM_NO_PAGE then create_new_page_handle fh
      else (case fetch_page_handle fh (first_free_page_no (file_hdr fh)) of
              (b, h) \<Rightarrow> (fh\<lparr>buffer_pool_manager := b\<rparr>, h)))"

text \<open>
  The loop \<^verbatim>\<open>for (slot_no = 0; slot_no < num_records_per_page; slot_no++)\<close> of
  \<^verbatim>\<open>insert_record\<close>, leaving at the first clear bit: \<open>first_unset bm i k\<close> is the value of
  \<open>slot_no\<close> when the loop is left, started at \<open>i\<close> with \<open>k\<close> slots still to look at.
\<close>

primrec first_unset :: "(nat \<Rightarrow> bool) \<Rightarrow> nat \<Rightarrow> nat \<Rightarrow> nat" where
  "first_unset bm i 0 = i"
| "first_unset bm i (Suc k) = (if \<not> bm i then i else first_unset bm (Suc i) k)"

definition insert_record :: "RmFileHandle \<Rightarrow> char list \<Rightarrow> fault + (RmFileHandle \<times> Rid)" where
  "insert_record fh buf =
     (case create_page_handle fh of
        (fh1, None) \<Rightarrow>
          (if num_records_per_page (file_hdr fh1) = 0 then Inr (fh1, Rid (-1) (-1))
           else Inl NullPageHandle)
      | (fh1, Some f) \<Rightarrow>
          (let h = file_hdr fh1;
               b = buffer_pool_manager fh1;
               slot = int (first_unset (bitmap (data (pages b ! f))) 0 (nat (num_records_per_page h)))
           in if slot = num_records_per_page h then Inr (fh1, Rid (-1) (-1))
              else
                (let b1 = modify_data b f (write_slot (slot_offset h slot) (nat (record_size h)) buf);
                     b2 = modify_data b1 f (\<lambda>d. d\<lparr>bitmap := (bitmap d)(nat slot := True)\<rparr>);
                     b3 = modify_data b2 f (\<lambda>d. d\<lparr>num_records := num_records d + 1\<rparr>);
                     h1 = (if num_records (data (pages b3 ! f)) = num_records_per_page h
                           then h\<lparr>first_free_page_no := next_free_page_no (data (pages b3 ! f))\<rparr>
                           else h);
                     b4 = fst (unpin_page b3 (page_id (pages b3 ! f)) True)
                 in Inr (fh1\<lparr>file_hdr := h1, buffer_pool_manager := b4\<rparr>,
                         Rid (PageId.page_no (page_id (pages b4 ! f))) slot))))"

text \<open>
  The two overwriting operations, \<^verbatim>\<open>insert_record(const Rid&, char*)\<close> and
  \<^verbatim>\<open>update_record\<close>, are not modelled. They check the slot number against the page capacity
  only; for a negative slot number \<^verbatim>\<open>get_slot\<close> points below the slot area and the copy goes
  into the bytes of the bitmap and the page header, which the three views of a page do not
  describe.
\<close>

definition release_page_handle :: "RmFileHandle \<Rightarrow> frame_id_t \<Rightarrow> RmFileHandle" where
  "release_page_handle fh f =
     (let b = buffer_pool_manager fh;
          b1 = modify_data b f (\<lambda>d. d\<lparr>next_free_page_no := first_free_page_no (file_hdr fh)\<rparr>)
      in fh\<lparr>buffer_pool_manager := b1,
            file_hdr := (file_hdr fh)\<lparr>first_free_page_no := PageId.page_no (page_id (pages b1 ! f))\<rparr>\<rparr>)"

definition delete_record :: "RmFileHandle \<Rightarrow> Rid \<Rightarrow> fault + RmFileHandle" where
  "delete_record fh r =
     (case fetch_page_handle fh (Rid.page_no r) of
        (b, None) \<Rightarrow> Inr (fh\<lparr>buffer_pool_manager := b\<rparr>)
      | (b, Some f) \<Rightarrow>
          (let h = file_hdr fh in
           if slot_no r \<ge> num_records_per_page h then Inr (fh\<lparr>buffer_pool_manager := b\<rparr>)
           else if slot_no r < 0 then Inl NegativeSlot
           else
             (let b1 = modify_data b f (\<lambda>d. d\<lparr>bitmap := (bitmap d)(nat (slot_no r) := False)\<rparr>);
                  b2 = modify_data b1 f (\<lambda>d. d\<lparr>num_records := num_records d - 1\<rparr>);
                  b3 = fst (unpin_page b2 (page_id (pages b2 ! f)) True);
                  fh1 = fh\<lparr>buffer_pool_manager := b3\<rparr>
              in if num_records (data (pages b3 ! f)) = num_records_per_page h - 1
                 then Inr (release_page_handle fh1 f)
                 else Inr fh1)))"

section \<open>Record scan\<close>

text \<open>
  The inner loop of \<^verbatim>\<open>RmScan::next\<close>:
  \<^verbatim>\<open>while (slot_no < num_records_per_page - 1) { slot_no++; if (is_set(bitmap, slot_no)) return; }\<close>.
  \<open>bm\<close> is the bitmap the page handle points to, \<open>None\<close> for the handle around a null
  page. The result is the slot found, or \<open>None\<close> when the page is exhausted.
\<close>

function next_in_page :: "(nat \<Rightarrow> bool) option \<Rightarrow> int \<Rightarrow> int \<Rightarrow> fault + int option" where
  "next_in_page bm slot n =
     (if slot < n - 1 then
        (case bm of
           None \<Rightarrow> Inl NullPageHandle
         | Some m \<Rightarrow>
             if slot + 1 < 0 then Inl NegativeSlot
             else if m (nat (slot + 1)) then Inr (Some (slot + 1))
             else next_in_page bm (slot + 1) n)
      else Inr None)"
  by pat_completeness auto
termination
  by (relation "measure (\<lambda>(bm, slot, n). nat (n - 1 - slot))") auto

record RmScan =
  file_handle :: RmFileHandle
  rid :: Rid

text \<open>The outer loop of \<^verbatim>\<open>RmScan::next\<close>, on the handle and the two fields of \<^verbatim>\<open>rid_\<close>.\<close>

function next_from :: "RmFileHandle \<Rightarrow> int \<Rightarrow> int \<Rightarrow> fault + RmScan" where
  "next_from fh pno slot =
     (if pno < num_pages (file_hdr fh) then
        (case fetch_page_handle fh pno of
           (b, h) \<Rightarrow>
             (let fh1 = fh\<lparr>buffer_pool_manager := b\<rparr> in
              case next_in_page (map_option (\<lambda>f. bitmap (data (pages b ! f))) h) slot
                     (num_records_per_page (file_hdr fh)) of
                Inl e \<Rightarrow> Inl e
              | Inr (Some s) \<Rightarrow> Inr \<lparr>file_handle = fh1, rid = Rid pno s\<rparr>
              | Inr None \<Rightarrow> next_from fh1 (pno + 1) (-1)))
      else Inr \<lparr>file_handle = fh, rid = Rid pno slot\<rparr>)"
  by pat_completeness auto
termination
  by (relation "measure (\<lambda>(fh, pno, slot). nat (num_pages (file_hdr fh) - pno))") auto

definition scan_next :: "RmScan \<Rightarrow> fault + RmScan" where
  "scan_next sc = next_from (file_handle sc) (Rid.page_no (rid sc)) (slot_no (rid sc))"

definition new_RmScan :: "RmFileHandle \<Rightarrow> fault + RmScan" where
  "new_RmScan fh = scan_next \<lparr>file_handle = fh, rid = Rid RM_FIRST_RECORD_PAGE (-1)\<rparr>"

definition is_end :: "RmScan \<Rightarrow> fault + (RmScan \<times> bool)" where
  "is_end sc =
     (let fh = file_handle sc in
      if Rid.page_no (rid sc) \<ge> num_pages (file_hdr fh) then Inr (sc, True)
      else
        (case fetch_page_handle fh (Rid.page_no (rid sc)) of
           (b, None) \<Rightarrow> Inl NullPageHandle
         | (b, Some f) \<Rightarrow>
             Inr (sc\<lparr>file_handle := fh\<lparr>buffer_pool_manager := b\<rparr>\<rparr>,
                  slot_no (rid sc) \<ge> num_records (data (pages b ! f)))))"

section \<open>Invariants, reachable states and example states\<close>

subsection \<open>The buffer pool\<close>

text \<open>
  The invariant of the pool. Frames on the free list and frames the replacer tracks are
  frames of the pool with pin count 0; both lists are free of duplicates, and the replacer's
  hash table holds exactly the frames of its list; no page id is mapped to a frame on the
  free list; the page table maps a page id only to a frame that carries this id; and no
  pin count is negative.
\<close>

definition bpm_inv :: "BufferPoolManager \<Rightarrow> bool" where
  "bpm_inv b \<longleftrightarrow>
     (\<forall>f \<in> set (free_list b). f < length (pages b) \<and> pin_count (pages b ! f) = 0) \<and>
     distinct (free_list b) \<and>
     (\<forall>f \<in> set (free_list b). \<forall>k. page_table b k \<noteq> Some f) \<and>
     (\<forall>f \<in> set (LRUlist (replacer b)). f < length (pages b) \<and> pin_count (pages b ! f) = 0) \<and>
     LRUhash (replacer b) = set (LRUlist (replacer b)) \<and>
     distinct (LRUlist (replacer b)) \<and>
     (\<forall>k f. page_table b k = Some f \<longrightarrow> f < length (pages b) \<and> page_id (pages b ! f) = k) \<and>
     (\<forall>f < length (pages b). 0 \<le> pin_count (pages b ! f))"

text \<open>
  Reachable pool states: a fresh pool, any public operation applied to a reachable state,
  and any write of a caller into the data of a frame (through the \<^verbatim>\<open>Page*\<close> that
  \<^verbatim>\<open>fetch_page\<close> or \<^verbatim>\<open>new_page\<close> returned).
\<close>

inductive reachable :: "BufferPoolManager \<Rightarrow> bool" where
  r_new: "reachable (new_BufferPoolManager pool_size d)"
| r_fetch: "reachable b \<Longrightarrow> reachable (fst (fetch_page b pid))"
| r_unpin: "reachable b \<Longrightarrow> reachable (fst (unpin_page b pid is_dirty))"
| r_flush: "reachable b \<Longrightarrow> reachable (fst (flush_page b pid))"
| r_new_page: "reachable b \<Longrightarrow> reachable (fst (new_page b page_fd))"
| r_delete: "reachable b \<Longrightarrow> reachable (fst (delete_page b pid))"
| r_flush_all: "reachable b \<Longrightarrow> reachable (flush_all_pages b page_fd)"
| r_write: "reachable b \<Longrightarrow> reachable (modify_data b f g)"

text \<open>
  Calls of \<^verbatim>\<open>fetch_page\<close> and \<^verbatim>\<open>unpin_page\<close> on one page id: a call, whether it succeeded
  (\<^verbatim>\<open>fetch_page\<close> returned a page, \<^verbatim>\<open>unpin_page\<close> returned true), and a run of calls that
  counts the successful fetches and the successful unpins. The pin count of a page is the
  pin count of the frame the page table maps it to, and 0 for a page that is not resident.
\<close>

datatype pin_call = Fetch | Unpin bool

fun pin_call_step :: "PageId \<Rightarrow> BufferPoolManager \<Rightarrow> pin_call \<Rightarrow> BufferPoolManager \<times> bool" where
  "pin_call_step pid b Fetch = (case fetch_page b pid of (b1, r) \<Rightarrow> (b1, r \<noteq> None))"
| "pin_call_step pid b (Unpin is_dirty) = unpin_page b pid is_dirty"

fun run_calls :: "PageId \<Rightarrow> BufferPoolManager \<Rightarrow> pin_call list \<Rightarrow> BufferPoolManager \<times> int \<times> int" where
  "run_calls pid b [] = (b, 0, 0)"
| "run_calls pid b (c # cs) =
     (case pin_call_step pid b c of
        (b1, ok) \<Rightarrow>
          (case run_calls pid b1 cs of
             (b2, nf, nu) \<Rightarrow>
               (b2, nf + (if ok \<and> c = Fetch then 1 else 0),
                    nu + (if ok \<and> c \<noteq> Fetch then 1 else 0))))"

definition pin_count_of :: "BufferPoolManager \<Rightarrow> PageId \<Rightarrow> int" where
  "pin_count_of b pid = (case page_table b pid of None \<Rightarrow> 0 | Some f \<Rightarrow> pin_count (pages b ! f))"

text \<open>
  The state after a victim frame \<open>f\<close> has been given to page \<open>pid\<close>: \<^verbatim>\<open>update_page\<close>, then the
  frame's data and pin count set and the frame pinned in the replacer. This is the common
  tail of \<^verbatim>\<open>fetch_page\<close> (on a miss) and \<^verbatim>\<open>new_page\<close>.
\<close>

definition install :: "BufferPoolManager \<Rightarrow> frame_id_t \<Rightarrow> PageId \<Rightarrow> page_data \<Rightarrow> int \<Rightarrow> BufferPoolManager" where
  "install b f pid dt pc =
     (let b2 = update_page b f pid
      in b2\<lparr>pages := (pages b2)[f := (pages b2 ! f)\<lparr>data := dt, pin_count := pc\<rparr>],
            replacer := pin (replacer b2) f\<rparr>)"

subsection \<open>A record file on the pool\<close>

text \<open>
  The content of a page: the data of its frame when the page is resident, its persisted
  bytes otherwise.
\<close>

definition page_content :: "BufferPoolManager \<Rightarrow> PageId \<Rightarrow> page_data" where
  "page_content b pid =
     (case page_table b pid of
        Some f \<Rightarrow> data (pages b ! f)
      | None \<Rightarrow> persisted (disk_manager b) pid)"

definition file_page :: "RmFileHandle \<Rightarrow> int \<Rightarrow> page_data" where
  "file_page fh p = page_content (buffer_pool_manager fh) (PageId (file_fd fh) p)"

text \<open>
  The pool as one record file \<open>fdv\<close> of \<open>np\<close> pages uses it. Only pages of the file are
  resident; a frame on the free list carries no page and is clean; a frame the replacer
  tracks is resident; a resident clean frame holds what the disk holds for its page (the
  frames in \<open>X\<close> excepted: a frame whose page is being written through a handle); and the
  disk manager's page counter for the file is the file's page count.
\<close>

definition file_pool_inv :: "frame_id_t set \<Rightarrow> int \<Rightarrow> int \<Rightarrow> BufferPoolManager \<Rightarrow> bool" where
  "file_pool_inv X fdv np b \<longleftrightarrow>
     (\<forall>k f. page_table b k = Some f \<longrightarrow> fd k = fdv \<and> 0 \<le> PageId.page_no k \<and> PageId.page_no k < np) \<and>
     (\<forall>f \<in> set (free_list b). PageId.page_no (page_id (pages b ! f)) = -1 \<and> \<not> dirty (pages b ! f)) \<and>
     (\<forall>f \<in> set (LRUlist (replacer b)). page_table b (page_id (pages b ! f)) = Some f) \<and>
     (\<forall>k f. page_table b k = Some f \<longrightarrow> f \<notin> X \<longrightarrow> \<not> dirty (pages b ! f) \<longrightarrow>
            data (pages b ! f) = persisted (disk_manager b) k) \<and>
     fd2pageno (disk_manager b) fdv = np"

definition pool_wf :: "frame_id_t set \<Rightarrow> int \<Rightarrow> int \<Rightarrow> BufferPoolManager \<Rightarrow> bool" where
  "pool_wf X fdv np b \<longleftrightarrow> bpm_inv b \<and> file_pool_inv X fdv np b"

text \<open>
  The number of set bits among the first \<open>n\<close> bits of a bitmap, and the property of
  claim C6 for one page and for all data pages (pages \<open>1 .. num_pages - 1\<close>) of a file.
\<close>

definition count_bits :: "nat \<Rightarrow> (nat \<Rightarrow> bool) \<Rightarrow> nat" where
  "count_bits n bm = length (filter bm [0..<n])"

definition page_ok :: "int \<Rightarrow> page_data \<Rightarrow> bool" where
  "page_ok n d \<longleftrightarrow> num_records d = int (count_bits (nat n) (bitmap d))"

definition counts_match :: "RmFileHandle \<Rightarrow> bool" where
  "counts_match fh \<longleftrightarrow>
     list_all (\<lambda>p. page_ok (num_records_per_page (file_hdr fh)) (file_page fh p))
       [1..num_pages (file_hdr fh) - 1]"

text \<open>
  The invariant of a record file: the pool is well-formed for the file, a page holds at
  least one record slot, the header page exists, and the record counts match the bitmaps.
\<close>

definition file_inv :: "RmFileHandle \<Rightarrow> bool" where
  "file_inv fh \<longleftrightarrow>
     pool_wf {} (file_fd fh) (num_pages (file_hdr fh)) (buffer_pool_manager fh) \<and>
     0 < num_records_per_page (file_hdr fh) \<and> 1 \<le> num_pages (file_hdr fh) \<and>
     counts_match fh"

text \<open>
  What \<^verbatim>\<open>create_page_handle\<close> establishes, from file \<open>fh\<close> to file \<open>fh1\<close> with a handle on
  frame \<open>f\<close> for page \<open>p\<close>: the frame is pinned and may be written; a page created by the call
  has an empty bitmap.
\<close>

definition handle_wf :: "RmFileHandle \<Rightarrow> RmFileHandle \<Rightarrow> frame_id_t \<Rightarrow> int \<Rightarrow> bool" where
  "handle_wf fh fh1 f p \<longleftrightarrow>
     bpm_inv (buffer_pool_manager fh1) \<and>
     file_pool_inv {f} (file_fd fh) (num_pages (file_hdr fh1)) (buffer_pool_manager fh1) \<and>
     page_table (buffer_pool_manager fh1) (PageId (file_fd fh) p) = Some f \<and>
     0 \<le> p \<and> p < num_pages (file_hdr fh1) \<and>
     0 < pin_count (pages (buffer_pool_manager fh1) ! f) \<and>
     file_fd fh1 = file_fd fh \<and>
     num_records_per_page (file_hdr fh1) = num_records_per_page (file_hdr fh) \<and>
     record_size (file_hdr fh1) = record_size (file_hdr fh) \<and>
     1 \<le> num_pages (file_hdr fh1) \<and>
     counts_match fh1 \<and>
     (file_pool_inv {} (file_fd fh) (num_pages (file_hdr fh1)) (buffer_pool_manager fh1) \<or>
      bitmap (data (pages (buffer_pool_manager fh1) ! f)) = (\<lambda>_. False))"

text \<open>
  An occupied slot of a data page, and the Rids that \<open>delete_record\<close> is called with in
  the amended claim C6: an Rid the code rejects (page number outside \<open>[0, num_pages)\<close> or
  slot number at or above the page capacity), or the Rid of an occupied slot.
\<close>

definition occupied :: "RmFileHandle \<Rightarrow> Rid \<Rightarrow> bool" where
  "occupied fh r \<longleftrightarrow>
     1 \<le> Rid.page_no r \<and> Rid.page_no r < num_pages (file_hdr fh) \<and>
     0 \<le> slot_no r \<and> slot_no r < num_records_per_page (file_hdr fh) \<and>
     bitmap (file_page fh (Rid.page_no r)) (nat (slot_no r))"

definition delete_ok :: "RmFileHandle \<Rightarrow> Rid \<Rightarrow> bool" where
  "delete_ok fh r \<longleftrightarrow>
     Rid.page_no r < 0 \<or> num_pages (file_hdr fh) \<le> Rid.page_no r \<or>
     num_records_per_page (file_hdr fh) \<le> slot_no r \<or> occupied fh r"

text \<open>
  Sequences of \<^verbatim>\<open>insert_record\<close> and \<^verbatim>\<open>delete_record\<close> calls on a file. A fault ends the run.
  \<open>valid_ops\<close> holds when every \<^verbatim>\<open>delete_record\<close> of the run is passed, in the state it is
  called in, an Rid for which \<open>delete_ok\<close> holds.
\<close>

datatype rec_op = Insert "char list" | Delete Rid

fun run_ops :: "RmFileHandle \<Rightarrow> rec_op list \<Rightarrow> fault + RmFileHandle" where
  "run_ops fh [] = Inr fh"
| "run_ops fh (Insert buf # os) =
     (case insert_record fh buf of Inl e \<Rightarrow> Inl e | Inr (fh1, r) \<Rightarrow> run_ops fh1 os)"
| "run_ops fh (Delete r # os) =
     (case delete_record fh r of Inl e \<Rightarrow> Inl e | Inr fh1 \<Rightarrow> run_ops fh1 os)"

fun valid_ops :: "RmFileHandle \<Rightarrow> rec_op list \<Rightarrow> bool" where
  "valid_ops fh [] = True"
| "valid_ops fh (Insert buf # os) =
     (case insert_record fh buf of Inl e \<Rightarrow> True | Inr (fh1, r) \<Rightarrow> valid_ops fh1 os)"
| "valid_ops fh (Delete r # os) =
     (delete_ok fh r \<and> (case delete_record fh r of Inl e \<Rightarrow> True | Inr fh1 \<Rightarrow> valid_ops fh1 os))"

subsection \<open>Example states\<close>

text \<open>
  A disk on which every file has its header page only, a page id, the pool of one frame
  after a fetch and an unpin of that page, and an empty record file (two bytes per record,
  four records per page) on a fresh pool of two frames.
\<close>

definition disk0 :: DiskManager where
  "disk0 = \<lparr>persisted = (\<lambda>_. zero_data), fd2pageno = (\<lambda>_. 1), can_allocate = (\<lambda>_. True)\<rparr>"

definition PA :: PageId where "PA = PageId 0 1"

definition pool_after_unpin :: BufferPoolManager where
  "pool_after_unpin =
     fst (unpin_page (fst (fetch_page (new_BufferPoolManager 1 disk0) (PageId 0 1))) (PageId 0 1) False)"

definition fh0 :: RmFileHandle where
  "fh0 = \<lparr>file_hdr = \<lparr>record_size = 2, num_pages = 1, num_records_per_page = 4,
                       first_free_page_no = RM_NO_PAGE\<rparr>,
          file_fd = 3, buffer_pool_manager = new_BufferPoolManager 2 disk0\<rparr>"

text \<open>
  The file after an insert, and the file a run ends in.
\<close>

definition after_insert :: "RmFileHandle \<Rightarrow> char list \<Rightarrow> RmFileHandle" where
  "after_insert fh buf = (case insert_record fh buf of Inr (fh1, r) \<Rightarrow> fh1 | Inl e \<Rightarrow> fh)"

definition the_file :: "fault + RmFileHandle \<Rightarrow> RmFileHandle" where
  "the_file x = (case x of Inr fh \<Rightarrow> fh | Inl e \<Rightarrow> fh0)"

text \<open>
  The file of the spec's scan example, \<^verbatim>\<open>[P0: slots {0,2}, P1: slots {1}]\<close>: the header page 0
  and the data pages 1 and 2 on disk, four slots per page, on a fresh pool of two frames.
\<close>

definition scan_disk :: DiskManager where
  "scan_disk =
     \<lparr>persisted = (\<lambda>pid.
          if pid = PageId 3 1
          then \<lparr>num_records = 2, next_free_page_no = 2,
                bitmap = (\<lambda>i. i = 0 \<or> i = 2), slots = (\<lambda>_. CHR 0x00)\<rparr>
          else if pid = PageId 3 2
          then \<lparr>num_records = 1, next_free_page_no = -1,
                bitmap = (\<lambda>i. i = 1), slots = (\<lambda>_. CHR 0x00)\<rparr>
          else zero_data),
      fd2pageno = (\<lambda>_. 3), can_allocate = (\<lambda>_. True)\<rparr>"

definition scan_file :: RmFileHandle where
  "scan_file = \<lparr>file_hdr = \<lparr>record_size = 2, num_pages = 3, num_records_per_page = 4,
                             first_free_page_no = 1\<rparr>,
                file_fd = 3, buffer_pool_manager = new_BufferPoolManager 2 scan_disk\<rparr>"

text \<open>
  Reading a scan: its position, the answer of \<^verbatim>\<open>is_end\<close>, and the step of the loop
  \<^verbatim>\<open>for (RmScan scan(fh); !scan.is_end(); scan.next())\<close>, which calls \<^verbatim>\<open>is_end\<close> and then
  \<^verbatim>\<open>next\<close>.
\<close>

definition rid_of :: "fault + RmScan \<Rightarrow> Rid option" where
  "rid_of x = (case x of Inr sc \<Rightarrow> Some (rid sc) | Inl e \<Rightarrow> None)"

definition end_of :: "fault + RmScan \<Rightarrow> bool option" where
  "end_of x = (case x of
                 Inr sc \<Rightarrow> (case is_end sc of Inr (sc1, e) \<Rightarrow> Some e | Inl e \<Rightarrow> None)
               | Inl e \<Rightarrow> None)"

definition is_end_then_next :: "fault + RmScan \<Rightarrow> fault + RmScan" where
  "is_end_then_next x =
     (case x of
        Inr sc \<Rightarrow> (case is_end sc of Inr (sc1, e) \<Rightarrow> scan_next sc1 | Inl e \<Rightarrow> Inl e)
      | Inl e \<Rightarrow> Inl e)"

text \<open>
  The same file on a pool of one frame whose frame is pinned by page 2: the pool cannot
  supply page 1.
\<close>

definition exhausted_file :: RmFileHandle where
  "exhausted_file =
     scan_file\<lparr>buffer_pool_manager := fst (fetch_page (new_BufferPoolManager 1 scan_disk) (PageId 3 2))\<rparr>"

section \<open>The buffer pool invariant\<close>

lemma victim_scan_mem: "victim_scan h xs = Some f \<Longrightarrow> f \<in> set xs"
  by (induction xs) (auto split: if_splits)

lemma bpm_inv_new: "bpm_inv (new_BufferPoolManager n d)"
  by (auto simp: bpm_inv_def new_BufferPoolManager_def new_LRUReplacer_def new_Page_def)

lemma bpm_inv_unpin_page: "bpm_inv b \<Longrightarrow> bpm_inv (fst (unpin_page b pid dty))"
  unfolding bpm_inv_def unpin_page_def unpin_def Size_def
  by (auto simp: Let_def nth_list_update split: option.splits)

lemma bpm_inv_flush_page: "bpm_inv b \<Longrightarrow> bpm_inv (fst (flush_page b pid))"
  unfolding bpm_inv_def flush_page_def write_page_def
  by (auto simp: Let_def nth_list_update split: option.splits)

lemma bpm_inv_delete_page: "bpm_inv b \<Longrightarrow> bpm_inv (fst (delete_page b pid))"
  unfolding bpm_inv_def delete_page_def write_page_def
  apply (auto simp: Let_def nth_list_update split: option.splits)
  apply metis
  done

lemma nth_dirty_update:
  "pin_count (xs[i := (xs ! i)\<lparr>dirty := d\<rparr>] ! f) = pin_count (xs ! f)"
  "page_id (xs[i := (xs ! i)\<lparr>dirty := d\<rparr>] ! f) = page_id (xs ! f)"
  by (cases "i < length xs"; simp add: nth_list_update list_update_beyond)+

lemma bpm_inv_dirty_disk:
  "bpm_inv b \<Longrightarrow>
   bpm_inv (b\<lparr>disk_manager := d, pages := (pages b)[i := (pages b ! i)\<lparr>dirty := x\<rparr>]\<rparr>)"
  by (simp add: bpm_inv_def nth_dirty_update)

lemma bpm_inv_flush_frame: "bpm_inv b \<Longrightarrow> bpm_inv (flush_frame f b i)"
  by (simp add: flush_frame_def Let_def bpm_inv_dirty_disk)

lemma bpm_inv_fold_flush: "bpm_inv b \<Longrightarrow> bpm_inv (fold (\<lambda>i b'. flush_frame f b' i) xs b)"
  by (induction xs arbitrary: b) (auto simp: bpm_inv_flush_frame)

lemma bpm_inv_flush_all_pages: "bpm_inv b \<Longrightarrow> bpm_inv (flush_all_pages b f)"
  by (simp add: flush_all_pages_def bpm_inv_fold_flush)

lemma victim_Some:
  assumes "victim r = (r', Some f)"
  shows "f \<in> set (LRUlist r) \<and> r' = r\<lparr>LRUhash := LRUhash r - {f}, LRUlist := removeAll f (LRUlist r)\<rparr>"
  using assms victim_scan_mem[of "LRUhash r" "rev (LRUlist r)" f]
  by (auto simp: victim_def split: if_splits option.splits)

lemma victim_None: "victim r = (r', None) \<Longrightarrow> r' = r"
  by (auto simp: victim_def split: if_splits option.splits)

lemma find_victim_page_None: "find_victim_page b = (b', None) \<Longrightarrow> b' = b"
  by (auto simp: find_victim_page_def split: list.splits prod.splits option.splits dest: victim_None)

lemma find_victim_page_Some:
  assumes "find_victim_page b = (b', Some f)"
  shows "(\<exists>rest. free_list b = f # rest \<and> b' = b\<lparr>free_list := rest\<rparr>) \<or>
         (free_list b = [] \<and> f \<in> set (LRUlist (replacer b)) \<and>
          b' = b\<lparr>replacer := (replacer b)\<lparr>LRUhash := LRUhash (replacer b) - {f},
                                   LRUlist := removeAll f (LRUlist (replacer b))\<rparr>\<rparr>)"
  using assms
  by (auto simp: find_victim_page_def split: list.splits prod.splits option.splits dest: victim_Some)

lemma find_victim_inv:
  assumes "bpm_inv b" and "find_victim_page b = (b1, Some f)"
  shows "bpm_inv b1 \<and> f \<notin> set (free_list b1) \<and> f < length (pages b) \<and>
         pin_count (pages b ! f) = 0 \<and> pages b1 = pages b \<and> page_table b1 = page_table b \<and>
         disk_manager b1 = disk_manager b"
  using find_victim_page_Some[OF assms(2)] assms(1)
  unfolding bpm_inv_def by (auto simp: distinct_removeAll)

lemma bpm_inv_fetch_page: "bpm_inv b \<Longrightarrow> bpm_inv (fst (fetch_page b pid))"
proof (cases "page_table b pid")
  case (Some f)
  assume "bpm_inv b"
  with Some show ?thesis
    unfolding bpm_inv_def fetch_page_def pin_def
    by (auto simp: Let_def nth_list_update)
next
  case None
  assume inv: "bpm_inv b"
  obtain b1 r where fv: "find_victim_page b = (b1, r)" by (cases "find_victim_page b")
  show ?thesis
  proof (cases r)
    case None
    with fv have "b1 = b" by (simp add: find_victim_page_None)
    with inv fv \<open>page_table b pid = None\<close> \<open>r = None\<close> show ?thesis
      by (simp add: fetch_page_def)
  next
    case (Some f)
    from find_victim_inv[OF inv fv[unfolded Some]]
    have "bpm_inv b1" "f \<notin> set (free_list b1)" "f < length (pages b1)" by auto
    then have "bpm_inv (let b2 = update_page b1 f pid;
                    page = pages b2 ! f;
                    page1 = page\<lparr>data := read_page (disk_manager b2) pid\<rparr>;
                    page2 = page1\<lparr>pin_count := pin_count page1 + 1\<rparr>
                in b2\<lparr>pages := (pages b2)[f := page2], replacer := pin (replacer b2) f\<rparr>)"
      unfolding bpm_inv_def update_page_def pin_def write_page_def
      apply (simp add: Let_def nth_list_update)
      apply (intro conjI impI allI ballI)
      apply (auto simp: nth_list_update)
      done
    with fv Some \<open>page_table b pid = None\<close> show ?thesis
      by (simp add: fetch_page_def Let_def)
  qed
qed

lemma bpm_inv_new_page: "bpm_inv b \<Longrightarrow> bpm_inv (fst (new_page b page_fd))"
proof -
  assume inv: "bpm_inv b"
  obtain b1 r where fv: "find_victim_page b = (b1, r)" by (cases "find_victim_page b")
  show ?thesis
  proof (cases r)
    case None
    with fv have "b1 = b" by (simp add: find_victim_page_None)
    with inv fv None show ?thesis by (simp add: new_page_def)
  next
    case (Some f)
    obtain pno d where al: "allocate_page (disk_manager b1) page_fd = (pno, d)"
      by (cases "allocate_page (disk_manager b1) page_fd")
    from find_victim_inv[OF inv fv[unfolded Some]]
    have b1: "bpm_inv b1" "f \<notin> set (free_list b1)" "f < length (pages b1)" by auto
    then have fail: "bpm_inv (b1\<lparr>disk_manager := d\<rparr>)"
      by (simp add: bpm_inv_def)
    from b1 have "bpm_inv (let b3 = update_page (b1\<lparr>disk_manager := d\<rparr>) f (PageId page_fd pno);
                       page = pages b3 ! f
                   in b3\<lparr>replacer := pin (replacer b3) f,
                          pages := (pages b3)[f := page\<lparr>pin_count := 1\<rparr>]\<rparr>)"
      unfolding bpm_inv_def update_page_def pin_def write_page_def
      apply (simp add: Let_def nth_list_update)
      apply (intro conjI impI allI ballI)
      apply (auto simp: nth_list_update)
      done
    with fv Some al fail show ?thesis
      by (simp add: new_page_def Let_def)
  qed
qed

text \<open>A write into the data of a frame changes nothing else.\<close>

lemma modify_data_simps [simp]:
  "page_table (modify_data b f g) = page_table b"
  "disk_manager (modify_data b f g) = disk_manager b"
  "free_list (modify_data b f g) = free_list b"
  "replacer (modify_data b f g) = replacer b"
  "length (pages (modify_data b f g)) = length (pages b)"
  by (simp_all add: modify_data_def)

lemma modify_data_nth [simp]:
  "page_id (pages (modify_data b f g) ! i) = page_id (pages b ! i)"
  "dirty (pages (modify_data b f g) ! i) = dirty (pages b ! i)"
  "pin_count (pages (modify_data b f g) ! i) = pin_count (pages b ! i)"
  by (cases "f < length (pages b)"; cases "i = f";
      simp add: modify_data_def nth_list_update list_update_beyond)+

lemma modify_data_data:
  "f < length (pages b) \<Longrightarrow>
   data (pages (modify_data b f g) ! i) = (if i = f then g (data (pages b ! f)) else data (pages b ! i))"
  by (simp add: modify_data_def nth_list_update)

lemma modify_data_inv: "bpm_inv b \<Longrightarrow> bpm_inv (modify_data b f g)"
  by (simp add: bpm_inv_def)

lemma reachable_inv: "reachable b \<Longrightarrow> bpm_inv b"
  by (induction rule: reachable.induct)
     (simp_all add: bpm_inv_new bpm_inv_fetch_page bpm_inv_unpin_page bpm_inv_flush_page
        bpm_inv_new_page bpm_inv_delete_page bpm_inv_flush_all_pages modify_data_inv)

text \<open>Unfolding sets for evaluating the operations on concrete states.\<close>

lemmas pool_defs = new_BufferPoolManager_def new_LRUReplacer_def new_Page_def disk0_def
  find_victim_page_def fetch_page_def unpin_page_def update_page_def new_page_def
  pin_def unpin_def Size_def victim_def read_page_def write_page_def allocate_page_def
  INVALID_PAGE_ID_def Let_def upt_rec

text \<open>
  In every reachable state of the pool, the frame that \<^verbatim>\<open>find_victim_page\<close> selects (from the
  free list or from \<^verbatim>\<open>LRUReplacer::victim\<close>) is a frame of the pool whose pin count is 0.
\<close>

theorem victim_frame_unpinned:
  assumes "reachable b" and "find_victim_page b = (b', Some f)"
  shows "f < length (pages b) \<and> pin_count (pages b ! f) = 0"
  using find_victim_inv[OF reachable_inv[OF assms(1)] assms(2)] by simp

text \<open>
  An instance: a pool of one frame after a fetch and an unpin of page (0, 1); the frame is
  then the replacer's only candidate.
\<close>

lemma pool_after_unpin_victim:
  "find_victim_page pool_after_unpin =
     (pool_after_unpin\<lparr>replacer := \<lparr>LRUlist = [], LRUhash = {}, max_size = 1\<rparr>\<rparr>, Some 0)"
  by (simp add: pool_after_unpin_def find_victim_page_def fetch_page_def unpin_page_def
        new_BufferPoolManager_def new_LRUReplacer_def new_Page_def update_page_def
        pin_def unpin_def Size_def victim_def read_page_def Let_def)

theorem victim_frame_unpinned_witness:
  "reachable pool_after_unpin \<and>
   find_victim_page pool_after_unpin =
     (pool_after_unpin\<lparr>replacer := \<lparr>LRUlist = [], LRUhash = {}, max_size = 1\<rparr>\<rparr>, Some 0) \<and>
   pin_count (pages pool_after_unpin ! 0) = 0"
proof -
  have r: "reachable pool_after_unpin"
    unfolding pool_after_unpin_def by (intro r_unpin r_fetch r_new)
  from victim_frame_unpinned[OF r pool_after_unpin_victim] r pool_after_unpin_victim
  show ?thesis by simp
qed

section \<open>The buffer pool under a record file\<close>

lemma fetch_page_hit_wf:
  assumes wf: "pool_wf {} fdv np b" and hit: "page_table b pid = Some f"
  shows "pool_wf {} fdv np (fst (fetch_page b pid)) \<and>
         (\<forall>k. page_content (fst (fetch_page b pid)) k = page_content b k) \<and>
         snd (fetch_page b pid) = Some f \<and>
         page_table (fst (fetch_page b pid)) pid = Some f \<and>
         0 < pin_count (pages (fst (fetch_page b pid)) ! f)"
proof -
  from wf have inv: "bpm_inv b" and fi: "file_pool_inv {} fdv np b" by (auto simp: pool_wf_def)
  from inv hit have fl: "f < length (pages b)" "0 \<le> pin_count (pages b ! f)"
    by (auto simp: bpm_inv_def)
  have st: "fetch_page b pid =
     (b\<lparr>pages := (pages b)[f := (pages b ! f)\<lparr>pin_count := pin_count (pages b ! f) + 1\<rparr>],
        replacer := pin (replacer b) f\<rparr>, Some f)"
    using hit by (simp add: fetch_page_def Let_def)
  have lru: "set (LRUlist (pin (replacer b) f)) \<subseteq> set (LRUlist (replacer b))"
    using set_remove1_subset[of f "LRUlist (replacer b)"] by (auto simp: pin_def)
  have "file_pool_inv {} fdv np (fst (fetch_page b pid))"
    using fi fl lru unfolding st file_pool_inv_def
    by (auto simp: nth_list_update)
  moreover have "\<forall>k. page_content (fst (fetch_page b pid)) k = page_content b k"
    using fl unfolding st page_content_def
    by (auto simp: nth_list_update split: option.splits)
  ultimately show ?thesis
    using bpm_inv_fetch_page[OF inv, of pid] fl hit unfolding st pool_wf_def by simp
qed

lemma install_eq:
  assumes fl: "f < length (pages b1)"
  shows "install b1 f pid dt pc =
     b1\<lparr>disk_manager := (if dirty (pages b1 ! f)
                              then write_page (disk_manager b1) (page_id (pages b1 ! f)) (data (pages b1 ! f))
                              else disk_manager b1),
         page_table := ((page_table b1)(page_id (pages b1 ! f) := None))(pid := Some f),
         pages := (pages b1)[f := (pages b1 ! f)\<lparr>dirty := False, page_id := pid,
                    data := dt, pin_count := pc\<rparr>],
         replacer := pin (replacer b1) f\<rparr>"
  using fl by (simp add: install_def update_page_def Let_def)

lemma fetch_page_miss_install:
  assumes "page_table b pid = None" and "find_victim_page b = (b1, Some f)" and "f < length (pages b1)"
  shows "fetch_page b pid =
     (install b1 f pid (persisted (disk_manager (update_page b1 f pid)) pid) (pin_count (pages b1 ! f) + 1),
      Some f)"
  using assms by (simp add: fetch_page_def install_def update_page_def read_page_def Let_def)

lemma new_page_install:
  assumes "find_victim_page b = (b1, Some f)" and "f < length (pages b1)"
    and "can_allocate (disk_manager b1) fdv" and "fd2pageno (disk_manager b1) fdv \<noteq> INVALID_PAGE_ID"
  shows "new_page b fdv =
     (install (b1\<lparr>disk_manager := snd (allocate_page (disk_manager b1) fdv)\<rparr>) f
        (PageId fdv (fd2pageno (disk_manager b1) fdv)) zero_data 1,
      Some (f, PageId fdv (fd2pageno (disk_manager b1) fdv)))"
proof -
  have sw: "\<And>(p::Page) d i. p\<lparr>data := d, page_id := i\<rparr> = p\<lparr>page_id := i, data := d\<rparr>"
    by simp
  show ?thesis
    using assms
    by (simp add: new_page_def install_def update_page_def allocate_page_def Let_def sw)
qed

lemma install_wf:
  assumes inv: "bpm_inv b" and fi: "file_pool_inv {} fdv np b"
    and fl: "f < length (pages b)" "f \<notin> set (free_list b)"
    and old: "(PageId.page_no (page_id (pages b ! f)) = -1 \<and> \<not> dirty (pages b ! f) \<and>
              (\<forall>k. page_table b k \<noteq> Some f)) \<or>
             page_table b (page_id (pages b ! f)) = Some f"
    and miss: "page_table b pid = None"
    and key: "fd pid = fdv" "0 \<le> PageId.page_no pid" "PageId.page_no pid < np"
  shows "file_pool_inv {f} fdv np (install b f pid dt pc) \<and>
         (\<forall>k. k \<noteq> pid \<longrightarrow> page_content (install b f pid dt pc) k = page_content b k) \<and>
         page_table (install b f pid dt pc) pid = Some f \<and>
         persisted (disk_manager (install b f pid dt pc)) pid = persisted (disk_manager b) pid \<and>
         data (pages (install b f pid dt pc) ! f) = dt \<and>
         pin_count (pages (install b f pid dt pc) ! f) = pc \<and>
         dirty (pages (install b f pid dt pc) ! f) = False"
proof -
  note st = install_eq[OF fl(1)]
  let ?b' = "install b f pid dt pc"
  have lru: "set (LRUlist (pin (replacer b) f)) \<subseteq> set (LRUlist (replacer b)) - {f}"
    using inv by (auto simp: pin_def bpm_inv_def)
  have tbl: "\<And>k g. page_table b k = Some g \<Longrightarrow> g < length (pages b) \<and> page_id (pages b ! g) = k"
    using inv by (auto simp: bpm_inv_def)
  have keys: "\<And>k g. page_table b k = Some g \<Longrightarrow> 0 \<le> PageId.page_no k"
    using fi unfolding file_pool_inv_def by blast
  have oldne: "page_id (pages b ! f) \<noteq> pid"
    using old miss key by auto
  have c1: "\<forall>k g. page_table ?b' k = Some g \<longrightarrow>
              fd k = fdv \<and> 0 \<le> PageId.page_no k \<and> PageId.page_no k < np"
    using fi key unfolding st by (auto simp: file_pool_inv_def split: if_splits)
  have c2: "\<forall>g \<in> set (free_list ?b').
              PageId.page_no (page_id (pages ?b' ! g)) = -1 \<and> \<not> dirty (pages ?b' ! g)"
    using fi fl unfolding st by (auto simp: file_pool_inv_def nth_list_update)
  have c3: "\<forall>g \<in> set (LRUlist (replacer ?b')). page_table ?b' (page_id (pages ?b' ! g)) = Some g"
  proof
    fix g assume "g \<in> set (LRUlist (replacer ?b'))"
    with lru have g: "g \<in> set (LRUlist (replacer b))" "g \<noteq> f" unfolding st by auto
    with fi have r: "page_table b (page_id (pages b ! g)) = Some g"
      by (auto simp: file_pool_inv_def)
    with miss have "page_id (pages b ! g) \<noteq> pid" by auto
    moreover from keys[OF r] have "page_id (pages b ! g) \<noteq> page_id (pages b ! f)"
      using r old g(2) by auto
    ultimately show "page_table ?b' (page_id (pages ?b' ! g)) = Some g"
      using r g(2) unfolding st by simp
  qed
  have c4: "\<forall>k g. page_table ?b' k = Some g \<longrightarrow> g \<notin> {f} \<longrightarrow> \<not> dirty (pages ?b' ! g) \<longrightarrow>
              data (pages ?b' ! g) = persisted (disk_manager ?b') k"
  proof (intro allI impI)
    fix k g assume kg: "page_table ?b' k = Some g" and gf: "g \<notin> {f}"
      and cl: "\<not> dirty (pages ?b' ! g)"
    from kg gf have k: "page_table b k = Some g" "k \<noteq> page_id (pages b ! f)" "k \<noteq> pid"
      unfolding st by (auto split: if_splits)
    from cl gf have "\<not> dirty (pages b ! g)" unfolding st by simp
    with fi k(1) have "data (pages b ! g) = persisted (disk_manager b) k"
      by (auto simp: file_pool_inv_def)
    with gf k(2) show "data (pages ?b' ! g) = persisted (disk_manager ?b') k"
      unfolding st by (simp add: write_page_def)
  qed
  have c5: "fd2pageno (disk_manager ?b') fdv = np"
    using fi unfolding st by (simp add: file_pool_inv_def write_page_def)
  have content: "\<forall>k. k \<noteq> pid \<longrightarrow> page_content ?b' k = page_content b k"
  proof (intro allI impI)
    fix k assume kp: "k \<noteq> pid"
    show "page_content ?b' k = page_content b k"
    proof (cases "k = page_id (pages b ! f)")
      case True
      show ?thesis
      proof (cases "page_table b k")
        case None
        with old True have "\<not> dirty (pages b ! f)" by auto
        with None True kp show ?thesis
          unfolding st page_content_def by simp
      next
        case (Some g)
        with tbl[of k g] keys[of k g] True old have gf: "g = f" by auto
        have "dirty (pages b ! f) \<or> data (pages b ! f) = persisted (disk_manager b) k"
          using fi Some gf by (auto simp: file_pool_inv_def)
        with Some gf True kp show ?thesis
          unfolding st page_content_def by (auto simp: write_page_def)
      qed
    next
      case False
      show ?thesis
      proof (cases "page_table b k")
        case None
        with False kp show ?thesis
          unfolding st page_content_def by (simp add: write_page_def)
      next
        case (Some g)
        with tbl False have "g \<noteq> f" by auto
        with Some False kp show ?thesis
          unfolding st page_content_def by simp
      qed
    qed
  qed
  have "file_pool_inv {f} fdv np ?b'"
    unfolding file_pool_inv_def using c1 c2 c3 c4 c5 by blast
  moreover have "persisted (disk_manager ?b') pid = persisted (disk_manager b) pid"
    using oldne unfolding st by (simp add: write_page_def)
  ultimately show ?thesis
    using content fl(1) by (simp add: st)
qed

lemma victim_facts:
  assumes wf: "pool_wf {} fdv np b" and fv: "find_victim_page b = (b1, Some f)"
  shows "bpm_inv b1 \<and> file_pool_inv {} fdv np b1 \<and> f < length (pages b1) \<and>
         f \<notin> set (free_list b1) \<and>
         ((PageId.page_no (page_id (pages b1 ! f)) = -1 \<and> \<not> dirty (pages b1 ! f) \<and>
              (\<forall>k. page_table b1 k \<noteq> Some f)) \<or>
             page_table b1 (page_id (pages b1 ! f)) = Some f) \<and>
         pin_count (pages b1 ! f) = 0 \<and> page_table b1 = page_table b \<and>
         disk_manager b1 = disk_manager b \<and> pages b1 = pages b"
proof -
  from wf have inv: "bpm_inv b" and fi: "file_pool_inv {} fdv np b" by (auto simp: pool_wf_def)
  from find_victim_inv[OF inv fv]
  have b1: "bpm_inv b1" "f \<notin> set (free_list b1)" "f < length (pages b1)"
    "pin_count (pages b1 ! f) = 0" "pages b1 = pages b" "page_table b1 = page_table b"
    "disk_manager b1 = disk_manager b" by auto
  note cases = find_victim_page_Some[OF fv]
  have old: "(PageId.page_no (page_id (pages b ! f)) = -1 \<and> \<not> dirty (pages b ! f) \<and>
              (\<forall>k. page_table b k \<noteq> Some f)) \<or>
             page_table b (page_id (pages b ! f)) = Some f"
    using cases fi inv by (auto simp: file_pool_inv_def bpm_inv_def)
  have fi1: "file_pool_inv {} fdv np b1"
    using cases fi by (auto simp: file_pool_inv_def)
  from b1 old fi1 show ?thesis by simp
qed

lemma page_content_cong:
  "page_table b1 = page_table b \<Longrightarrow> disk_manager b1 = disk_manager b \<Longrightarrow> pages b1 = pages b \<Longrightarrow>
   page_content b1 k = page_content b k"
  by (simp add: page_content_def split: option.splits)

lemma file_pool_inv_close:
  assumes "file_pool_inv {f} fdv np b" and "bpm_inv b"
    and "dirty (pages b ! f) \<or> data (pages b ! f) = persisted (disk_manager b) (page_id (pages b ! f))"
  shows "file_pool_inv {} fdv np b"
proof -
  have tbl: "\<And>k g. page_table b k = Some g \<Longrightarrow> page_id (pages b ! g) = k"
    using assms(2) by (auto simp: bpm_inv_def)
  have "\<forall>k g. page_table b k = Some g \<longrightarrow> g \<notin> {} \<longrightarrow> \<not> dirty (pages b ! g) \<longrightarrow>
            data (pages b ! g) = persisted (disk_manager b) k"
  proof (intro allI impI)
    fix k g assume kg: "page_table b k = Some g" and cl: "\<not> dirty (pages b ! g)"
    show "data (pages b ! g) = persisted (disk_manager b) k"
    proof (cases "g = f")
      case True
      with assms(3) cl tbl[OF kg] show ?thesis by auto
    next
      case False
      with assms(1) kg cl show ?thesis by (auto simp: file_pool_inv_def)
    qed
  qed
  with assms(1) show ?thesis unfolding file_pool_inv_def by blast
qed

lemma file_pool_inv_open: "file_pool_inv {} fdv np b \<Longrightarrow> file_pool_inv X fdv np b"
  unfolding file_pool_inv_def by blast

lemma fetch_page_wf:
  assumes wf: "pool_wf {} fdv np b"
    and key: "fd pid = fdv" "0 \<le> PageId.page_no pid" "PageId.page_no pid < np"
  shows "pool_wf {} fdv np (fst (fetch_page b pid)) \<and>
         (\<forall>k. page_content (fst (fetch_page b pid)) k = page_content b k) \<and>
         (\<forall>f. snd (fetch_page b pid) = Some f \<longrightarrow>
               page_table (fst (fetch_page b pid)) pid = Some f \<and>
               0 < pin_count (pages (fst (fetch_page b pid)) ! f))"
proof (cases "page_table b pid")
  case (Some f)
  from fetch_page_hit_wf[OF wf Some] show ?thesis by simp
next
  case None
  from wf have inv: "bpm_inv b" by (simp add: pool_wf_def)
  obtain b1 v where fv: "find_victim_page b = (b1, v)" by (cases "find_victim_page b")
  show ?thesis
  proof (cases v)
    case None
    with fv have "b1 = b" by (simp add: find_victim_page_None)
    with fv None \<open>page_table b pid = None\<close> have "fetch_page b pid = (b, None)"
      by (simp add: fetch_page_def)
    with wf show ?thesis by simp
  next
    case (Some f)
    note fv = fv[unfolded Some]
    from victim_facts[OF wf fv]
    have b1: "bpm_inv b1" "file_pool_inv {} fdv np b1" "f < length (pages b1)"
      "f \<notin> set (free_list b1)"
      "(PageId.page_no (page_id (pages b1 ! f)) = -1 \<and> \<not> dirty (pages b1 ! f) \<and>
              (\<forall>k. page_table b1 k \<noteq> Some f)) \<or>
             page_table b1 (page_id (pages b1 ! f)) = Some f"
      "pin_count (pages b1 ! f) = 0" "page_table b1 = page_table b"
      "disk_manager b1 = disk_manager b" "pages b1 = pages b" by auto
    let ?dt = "persisted (disk_manager (update_page b1 f pid)) pid"
    let ?b' = "install b1 f pid ?dt (pin_count (pages b1 ! f) + 1)"
    have st: "fetch_page b pid = (?b', Some f)"
      using fetch_page_miss_install[OF None fv b1(3)] .
    have miss1: "page_table b1 pid = None" using None b1(7) by simp
    from install_wf[OF b1(1,2,3,4,5) miss1 key, of ?dt "pin_count (pages b1 ! f) + 1"]
    have iw: "file_pool_inv {f} fdv np ?b'"
      "\<forall>k. k \<noteq> pid \<longrightarrow> page_content ?b' k = page_content b1 k"
      "page_table ?b' pid = Some f"
      "persisted (disk_manager ?b') pid = persisted (disk_manager b1) pid"
      "data (pages ?b' ! f) = ?dt"
      "pin_count (pages ?b' ! f) = pin_count (pages b1 ! f) + 1"
      by auto
    have inv': "bpm_inv ?b'" using bpm_inv_fetch_page[OF inv, of pid] st by simp
    have dsk: "disk_manager ?b' = disk_manager (update_page b1 f pid)"
      by (simp add: install_def Let_def)
    from inv' iw(3) have pidf: "page_id (pages ?b' ! f) = pid" by (auto simp: bpm_inv_def)
    have "file_pool_inv {} fdv np ?b'"
      by (rule file_pool_inv_close[OF iw(1) inv']) (simp add: iw(5) pidf dsk)
    moreover have "\<forall>k. page_content ?b' k = page_content b k"
    proof
      fix k show "page_content ?b' k = page_content b k"
      proof (cases "k = pid")
        case True
        have "page_content ?b' pid = ?dt" using iw(3,5) by (simp add: page_content_def)
        also have "\<dots> = persisted (disk_manager b1) pid" using iw(4) dsk by simp
        also have "\<dots> = page_content b pid" using None b1(8) by (simp add: page_content_def)
        finally show ?thesis using True by simp
      next
        case False
        with iw(2) have "page_content ?b' k = page_content b1 k" by simp
        with page_content_cong[OF b1(7,8,9)] show ?thesis by simp
      qed
    qed
    ultimately show ?thesis
      using inv' iw(3,6) b1(6) unfolding st pool_wf_def by simp
  qed
qed

lemma new_page_wf:
  assumes wf: "pool_wf {} fdv np b" and np: "0 \<le> np"
  shows "(snd (new_page b fdv) = None \<longrightarrow>
            pool_wf {} fdv np (fst (new_page b fdv)) \<and>
            (\<forall>k. page_content (fst (new_page b fdv)) k = page_content b k)) \<and>
         (\<forall>f pid. snd (new_page b fdv) = Some (f, pid) \<longrightarrow>
            pid = PageId fdv np \<and> bpm_inv (fst (new_page b fdv)) \<and>
            file_pool_inv {f} fdv (np + 1) (fst (new_page b fdv)) \<and>
            (\<forall>k. k \<noteq> pid \<longrightarrow> page_content (fst (new_page b fdv)) k = page_content b k) \<and>
            page_table (fst (new_page b fdv)) pid = Some f \<and>
            f < length (pages (fst (new_page b fdv))) \<and>
            data (pages (fst (new_page b fdv)) ! f) = zero_data \<and>
            pin_count (pages (fst (new_page b fdv)) ! f) = 1)"
proof -
  from wf have inv: "bpm_inv b" and fi: "file_pool_inv {} fdv np b" by (auto simp: pool_wf_def)
  obtain b1 v where fv: "find_victim_page b = (b1, v)" by (cases "find_victim_page b")
  show ?thesis
  proof (cases v)
    case None
    with fv have "b1 = b" by (simp add: find_victim_page_None)
    with fv None have "new_page b fdv = (b, None)" by (simp add: new_page_def)
    with wf show ?thesis by simp
  next
    case (Some f)
    note fv = fv[unfolded Some]
    from victim_facts[OF wf fv]
    have b1: "bpm_inv b1" "file_pool_inv {} fdv np b1" "f < length (pages b1)"
      "f \<notin> set (free_list b1)"
      "(PageId.page_no (page_id (pages b1 ! f)) = -1 \<and> \<not> dirty (pages b1 ! f) \<and>
              (\<forall>k. page_table b1 k \<noteq> Some f)) \<or>
             page_table b1 (page_id (pages b1 ! f)) = Some f"
      "pin_count (pages b1 ! f) = 0" "page_table b1 = page_table b"
      "disk_manager b1 = disk_manager b" "pages b1 = pages b" by auto
    from fi b1(8) have cnt: "fd2pageno (disk_manager b1) fdv = np" by (simp add: file_pool_inv_def)
    show ?thesis
    proof (cases "can_allocate (disk_manager b1) fdv")
      case False
      with fv have st: "new_page b fdv = (b1, None)"
        by (simp add: new_page_def allocate_page_def Let_def)
      have "\<forall>k. page_content b1 k = page_content b k"
        using page_content_cong[OF b1(7,8,9)] by simp
      with b1(1,2) show ?thesis unfolding st pool_wf_def by simp
    next
      case True
      let ?d = "snd (allocate_page (disk_manager b1) fdv)"
      let ?b2 = "b1\<lparr>disk_manager := ?d\<rparr>"
      let ?pid = "PageId fdv np"
      let ?b' = "install ?b2 f ?pid zero_data 1"
      have ne: "fd2pageno (disk_manager b1) fdv \<noteq> INVALID_PAGE_ID"
        using cnt np by (simp add: INVALID_PAGE_ID_def)
      have st: "new_page b fdv = (?b', Some (f, ?pid))"
        using new_page_install[OF fv b1(3) True ne] cnt by simp
      have d: "?d = (disk_manager b1)\<lparr>fd2pageno := (fd2pageno (disk_manager b1))(fdv := np + 1)\<rparr>"
        using True cnt by (simp add: allocate_page_def)
      have inv2: "bpm_inv ?b2" using b1(1) by (simp add: bpm_inv_def)
      have fi2: "file_pool_inv {} fdv (np + 1) ?b2"
        using b1(2) unfolding file_pool_inv_def d by fastforce
      have miss: "page_table ?b2 ?pid = None"
      proof (cases "page_table b1 ?pid")
        case None then show ?thesis by simp
      next
        case (Some g)
        with b1(2) have "PageId.page_no ?pid < np" unfolding file_pool_inv_def by blast
        then show ?thesis by simp
      qed
      from install_wf[OF inv2 fi2, of f ?pid zero_data 1] b1(3,4,5) miss np
      have iw: "file_pool_inv {f} fdv (np + 1) ?b'"
        "\<forall>k. k \<noteq> ?pid \<longrightarrow> page_content ?b' k = page_content ?b2 k"
        "page_table ?b' ?pid = Some f"
        "data (pages ?b' ! f) = zero_data"
        "pin_count (pages ?b' ! f) = 1"
        by auto
      have inv': "bpm_inv ?b'" using bpm_inv_new_page[OF inv, of fdv] st by simp
      have pd: "persisted ?d = persisted (disk_manager b)"
        by (simp add: allocate_page_def b1(8))
      have c2: "\<forall>k. page_content ?b2 k = page_content b k"
        using b1(7,9) pd by (simp add: page_content_def split: option.splits)
      have "f < length (pages ?b')" using b1(3) by (simp add: install_def update_page_def Let_def)
      with iw inv' c2 show ?thesis unfolding st by simp
    qed
  qed
qed

lemma modify_data_file_inv:
  assumes "file_pool_inv X fdv np b" and "f \<in> X \<or> dirty (pages b ! f)" and "f < length (pages b)"
  shows "file_pool_inv X fdv np (modify_data b f g)"
  using assms unfolding file_pool_inv_def
  by (simp add: modify_data_data) blast

lemma modify_data_content:
  assumes "f < length (pages b)" and "bpm_inv b"
  shows "page_content (modify_data b f g) k =
           (if page_table b k = Some f then g (page_content b k) else page_content b k)"
  using assms by (auto simp: page_content_def modify_data_data split: option.splits)

lemma unpin_page_dirty_wf:
  assumes inv: "bpm_inv b" and fi: "file_pool_inv X fdv np b"
    and tb: "page_table b pid = Some f" and pc: "0 < pin_count (pages b ! f)"
  shows "bpm_inv (fst (unpin_page b pid True)) \<and>
         file_pool_inv (X - {f}) fdv np (fst (unpin_page b pid True)) \<and>
         page_table (fst (unpin_page b pid True)) = page_table b \<and>
         disk_manager (fst (unpin_page b pid True)) = disk_manager b \<and>
         length (pages (fst (unpin_page b pid True))) = length (pages b) \<and>
         (\<forall>i. data (pages (fst (unpin_page b pid True)) ! i) = data (pages b ! i)) \<and>
         (\<forall>i. page_id (pages (fst (unpin_page b pid True)) ! i) = page_id (pages b ! i)) \<and>
         dirty (pages (fst (unpin_page b pid True)) ! f)"
proof -
  from inv tb have fl: "f < length (pages b)" "page_id (pages b ! f) = pid"
    by (auto simp: bpm_inv_def)
  let ?r = "if pin_count (pages b ! f) - 1 = 0 then unpin (replacer b) f else replacer b"
  have st: "fst (unpin_page b pid True) =
      b\<lparr>pages := (pages b)[f := (pages b ! f)\<lparr>pin_count := pin_count (pages b ! f) - 1, dirty := True\<rparr>],
        replacer := ?r\<rparr>"
    using tb pc by (simp add: unpin_page_def Let_def)
  have lru: "set (LRUlist ?r) \<subseteq> insert f (set (LRUlist (replacer b)))"
    by (auto simp: unpin_def)
  have "file_pool_inv (X - {f}) fdv np (fst (unpin_page b pid True))"
    unfolding file_pool_inv_def st
  proof (intro conjI)
    show "\<forall>g\<in>set (LRUlist (replacer (b\<lparr>pages := (pages b)[f := (pages b ! f)\<lparr>pin_count := pin_count (pages b ! f) - 1, dirty := True\<rparr>], replacer := ?r\<rparr>))).
       page_table (b\<lparr>pages := (pages b)[f := (pages b ! f)\<lparr>pin_count := pin_count (pages b ! f) - 1, dirty := True\<rparr>], replacer := ?r\<rparr>)
        (page_id (pages (b\<lparr>pages := (pages b)[f := (pages b ! f)\<lparr>pin_count := pin_count (pages b ! f) - 1, dirty := True\<rparr>], replacer := ?r\<rparr>) ! g)) = Some g"
      using lru fi fl tb by (auto simp: file_pool_inv_def nth_list_update)
  qed (use fi fl tb inv pc in \<open>auto simp: file_pool_inv_def bpm_inv_def nth_list_update\<close>)
  moreover have "\<forall>i. data (pages (fst (unpin_page b pid True)) ! i) = data (pages b ! i)"
    "\<forall>i. page_id (pages (fst (unpin_page b pid True)) ! i) = page_id (pages b ! i)"
    using fl unfolding st by (auto simp: nth_list_update)
  ultimately show ?thesis
    using bpm_inv_unpin_page[OF inv, of pid True] fl
    by (simp add: st)
qed

section \<open>The record file invariant\<close>

lemma counts_match_iff:
  "counts_match fh \<longleftrightarrow>
     (\<forall>p. 1 \<le> p \<and> p < num_pages (file_hdr fh) \<longrightarrow>
          page_ok (num_records_per_page (file_hdr fh)) (file_page fh p))"
  by (auto simp: counts_match_def list_all_iff)

lemma modify_data_comp:
  "modify_data (modify_data b f g1) f g2 = modify_data b f (\<lambda>d. g2 (g1 d))"
  by (cases "f < length (pages b)") (simp_all add: modify_data_def list_update_beyond)

lemma bpm_inv_table:
  "bpm_inv b \<Longrightarrow> page_table b k = Some f \<Longrightarrow> f < length (pages b) \<and> page_id (pages b ! f) = k"
  unfolding bpm_inv_def by blast

lemma touch_wf:
  assumes inv: "bpm_inv b" and fi: "file_pool_inv {f} fdv np b"
    and tb: "page_table b pid = Some f" and pc: "0 < pin_count (pages b ! f)"
  shows "bpm_inv (fst (unpin_page (modify_data b f g) pid True)) \<and>
         file_pool_inv {} fdv np (fst (unpin_page (modify_data b f g) pid True)) \<and>
         (\<forall>k. page_content (fst (unpin_page (modify_data b f g) pid True)) k =
                (if k = pid then g (page_content b pid) else page_content b k)) \<and>
         page_table (fst (unpin_page (modify_data b f g) pid True)) = page_table b \<and>
         data (pages (fst (unpin_page (modify_data b f g) pid True)) ! f) = g (data (pages b ! f)) \<and>
         page_id (pages (fst (unpin_page (modify_data b f g) pid True)) ! f) = pid \<and>
         dirty (pages (fst (unpin_page (modify_data b f g) pid True)) ! f) \<and>
         f < length (pages (fst (unpin_page (modify_data b f g) pid True)))"
proof -
  let ?m = "modify_data b f g"
  let ?u = "fst (unpin_page ?m pid True)"
  from inv tb have fl: "f < length (pages b)" "page_id (pages b ! f) = pid"
    by (auto simp: bpm_inv_def)
  have tbl: "\<And>k. page_table b k = Some f \<longleftrightarrow> k = pid"
    using bpm_inv_table[OF inv] tb fl by auto
  have m1: "bpm_inv ?m" using inv by (rule modify_data_inv)
  have m2: "file_pool_inv {f} fdv np ?m" using fi fl by (simp add: modify_data_file_inv)
  have m3: "page_table ?m pid = Some f" "0 < pin_count (pages ?m ! f)" using tb pc by simp_all
  from unpin_page_dirty_wf[OF m1 m2 m3]
  have u: "bpm_inv ?u" "file_pool_inv ({f} - {f}) fdv np ?u" "page_table ?u = page_table b"
    "disk_manager ?u = disk_manager b" "length (pages ?u) = length (pages b)"
    "\<forall>i. data (pages ?u ! i) = data (pages ?m ! i)"
    "\<forall>i. page_id (pages ?u ! i) = page_id (pages b ! i)"
    "dirty (pages ?u ! f)"
    by simp_all
  have "\<forall>k. page_content ?u k = page_content ?m k"
    using u(3,4,6) by (simp add: page_content_def split: option.splits)
  then have "\<forall>k. page_content ?u k = (if k = pid then g (page_content b pid) else page_content b k)"
    using modify_data_content[OF fl(1) inv, of g] tbl by simp
  with u fl show ?thesis by (simp add: modify_data_data)
qed

lemma count_bits_Suc: "count_bits (Suc n) bm = count_bits n bm + (if bm n then 1 else 0)"
  by (simp add: count_bits_def)

lemma count_bits_cong: "(\<forall>i<n. bm' i = bm i) \<Longrightarrow> count_bits n bm' = count_bits n bm"
  by (induction n) (simp_all add: count_bits_Suc, simp add: count_bits_def)

lemma count_bits_one_more:
  assumes "s < n" and "\<not> bm s" and "bm' s" and "\<forall>i. i \<noteq> s \<longrightarrow> bm' i = bm i"
  shows "count_bits n bm' = count_bits n bm + 1"
  using assms(1)
proof (induction n)
  case 0 then show ?case by simp
next
  case (Suc n)
  show ?case
  proof (cases "s = n")
    case True
    with assms(4) have "count_bits n bm' = count_bits n bm" by (intro count_bits_cong) simp
    with True assms(2,3) show ?thesis by (simp add: count_bits_Suc)
  next
    case False
    with Suc assms(4) show ?thesis by (simp add: count_bits_Suc)
  qed
qed

lemma count_bits_set: "s < n \<Longrightarrow> \<not> bm s \<Longrightarrow> count_bits n (bm(s := True)) = count_bits n bm + 1"
  by (rule count_bits_one_more[of s n bm]) simp_all

lemma count_bits_reset: "s < n \<Longrightarrow> bm s \<Longrightarrow> count_bits n (bm(s := False)) + 1 = count_bits n bm"
  using count_bits_one_more[of s n "bm(s := False)" bm] by simp

lemma count_bits_zero: "count_bits n (\<lambda>_. False) = 0"
  by (simp add: count_bits_def)

lemma first_unset_bounds: "i \<le> first_unset bm i k \<and> first_unset bm i k \<le> i + k"
proof (induction k arbitrary: i)
  case 0 then show ?case by simp
next
  case (Suc k)
  from Suc[of "Suc i"] show ?case by auto
qed

lemma first_unset_clear: "first_unset bm i k < i + k \<Longrightarrow> \<not> bm (first_unset bm i k)"
proof (induction k arbitrary: i)
  case 0 then show ?case by simp
next
  case (Suc k)
  from Suc.IH[of "Suc i"] Suc.prems show ?case by auto
qed

lemma fetch_page_handle_wf:
  assumes wf: "pool_wf {} (file_fd fh) (num_pages (file_hdr fh)) (buffer_pool_manager fh)"
  shows "pool_wf {} (file_fd fh) (num_pages (file_hdr fh)) (fst (fetch_page_handle fh p)) \<and>
         (\<forall>k. page_content (fst (fetch_page_handle fh p)) k = page_content (buffer_pool_manager fh) k) \<and>
         (\<forall>f. snd (fetch_page_handle fh p) = Some f \<longrightarrow>
              0 \<le> p \<and> p < num_pages (file_hdr fh) \<and>
              page_table (fst (fetch_page_handle fh p)) (PageId (file_fd fh) p) = Some f \<and>
              0 < pin_count (pages (fst (fetch_page_handle fh p)) ! f))"
proof (cases "p < 0 \<or> num_pages (file_hdr fh) \<le> p")
  case True
  then have "fetch_page_handle fh p = (buffer_pool_manager fh, None)"
    by (auto simp: fetch_page_handle_def)
  with wf show ?thesis by simp
next
  case False
  then have st: "fetch_page_handle fh p = fetch_page (buffer_pool_manager fh) (PageId (file_fd fh) p)"
    by (auto simp: fetch_page_handle_def)
  from False fetch_page_wf[OF wf, of "PageId (file_fd fh) p"] show ?thesis
    unfolding st by auto
qed

lemma create_new_page_handle_wf:
  assumes fi: "file_inv fh" and cp: "create_new_page_handle fh = (fh1, Some f)"
  shows "handle_wf fh fh1 f (num_pages (file_hdr fh))"
proof -
  let ?b = "buffer_pool_manager fh" and ?fd = "file_fd fh" and ?np = "num_pages (file_hdr fh)"
  let ?n = "num_records_per_page (file_hdr fh)"
  from fi have wf: "pool_wf {} ?fd ?np ?b" and np: "1 \<le> ?np" and cm: "counts_match fh"
    by (auto simp: file_inv_def)
  obtain b' r where nw: "new_page ?b ?fd = (b', r)" by (cases "new_page ?b ?fd")
  with cp obtain pid where r: "r = Some (f, pid)"
    by (cases r) (auto simp: create_new_page_handle_def Let_def)
  let ?g = "\<lambda>d. (d\<lparr>next_free_page_no := RM_NO_PAGE\<rparr>)\<lparr>num_records := 0\<rparr>"
  let ?b2 = "modify_data b' f ?g"
  from cp nw r have fh1: "fh1 = fh\<lparr>buffer_pool_manager := ?b2,
                  file_hdr := (file_hdr fh)\<lparr>num_pages := ?np + 1\<rparr>\<rparr>"
    by (simp add: create_new_page_handle_def Let_def modify_data_comp)
  from new_page_wf[OF wf, of ] np nw r
  have n: "pid = PageId ?fd ?np" "bpm_inv b'" "file_pool_inv {f} ?fd (?np + 1) b'"
    "\<forall>k. k \<noteq> pid \<longrightarrow> page_content b' k = page_content ?b k"
    "page_table b' pid = Some f" "f < length (pages b')" "data (pages b' ! f) = zero_data"
    "pin_count (pages b' ! f) = 1"
    by auto
  have tbl: "\<And>k. page_table b' k = Some f \<longleftrightarrow> k = pid"
    using bpm_inv_table[OF n(2)] n(5) by auto
  have c_pid: "page_content b' pid = zero_data"
    using n(5,7) by (simp add: page_content_def)
  have content: "\<And>k. page_content ?b2 k = (if k = pid then ?g zero_data else page_content ?b k)"
    using modify_data_content[OF n(6) n(2), of ?g] tbl n(4) c_pid by simp
  have "counts_match fh1"
    unfolding counts_match_iff
  proof (intro allI impI)
    fix q assume q: "1 \<le> q \<and> q < num_pages (file_hdr fh1)"
    show "page_ok (num_records_per_page (file_hdr fh1)) (file_page fh1 q)"
    proof (cases "q = ?np")
      case True
      then show ?thesis
        using content[of pid] n(1)
        by (simp add: fh1 file_page_def page_ok_def zero_data_def count_bits_zero)
    next
      case False
      with q have "1 \<le> q \<and> q < ?np" by (simp add: fh1)
      with cm have "page_ok ?n (file_page fh q)" unfolding counts_match_iff by blast
      with False content[of "PageId ?fd q"] n(1) show ?thesis
        by (simp add: fh1 file_page_def)
    qed
  qed
  moreover have "bitmap (data (pages ?b2 ! f)) = (\<lambda>_. False)"
    using n(6,7) by (simp add: modify_data_data zero_data_def)
  moreover have "file_pool_inv {f} ?fd (?np + 1) ?b2"
    using n(3,6) by (simp add: modify_data_file_inv)
  ultimately show ?thesis
    using n np unfolding handle_wf_def
    by (simp add: fh1 modify_data_inv)
qed

lemma create_page_handle_wf:
  assumes fi: "file_inv fh" and cp: "create_page_handle fh = (fh1, Some f)"
  shows "\<exists>p. handle_wf fh fh1 f p"
proof (cases "first_free_page_no (file_hdr fh) = RM_NO_PAGE")
  case True
  with cp have "create_new_page_handle fh = (fh1, Some f)" by (simp add: create_page_handle_def)
  from create_new_page_handle_wf[OF fi this] show ?thesis by blast
next
  case False
  let ?b = "buffer_pool_manager fh" and ?fd = "file_fd fh" and ?np = "num_pages (file_hdr fh)"
  let ?p = "first_free_page_no (file_hdr fh)"
  from fi have wf: "pool_wf {} ?fd ?np ?b" and np: "1 \<le> ?np" and cm: "counts_match fh"
    by (auto simp: file_inv_def)
  obtain b1 h where fp: "fetch_page_handle fh ?p = (b1, h)" by (cases "fetch_page_handle fh ?p")
  with cp False have fh1: "fh1 = fh\<lparr>buffer_pool_manager := b1\<rparr>" and h: "h = Some f"
    by (auto simp: create_page_handle_def)
  from fetch_page_handle_wf[OF wf, of ?p] fp h
  have w: "pool_wf {} ?fd ?np b1" "\<forall>k. page_content b1 k = page_content ?b k"
    "0 \<le> ?p" "?p < ?np" "page_table b1 (PageId ?fd ?p) = Some f" "0 < pin_count (pages b1 ! f)"
    by auto
  have "counts_match fh1"
    using cm w(2) unfolding counts_match_iff by (simp add: fh1 file_page_def)
  with w np have "handle_wf fh fh1 f ?p"
    unfolding handle_wf_def pool_wf_def
    by (simp add: fh1 file_pool_inv_open)
  then show ?thesis by blast
qed

lemma read_write_slot:
  "read_slot off n (write_slot off n buf d) = map (\<lambda>k. buf ! k) [0..<n]"
  by (simp add: read_slot_def write_slot_def)

text \<open>What a successful \<^verbatim>\<open>insert_record\<close> leaves behind.\<close>

lemma unpin_page_page_id [simp]:
  "page_id (pages (fst (unpin_page b pid d)) ! i) = page_id (pages b ! i)"
proof (cases "page_table b pid")
  case None then show ?thesis by (simp add: unpin_page_def)
next
  case (Some f)
  show ?thesis
  proof (cases "f < length (pages b)")
    case True
    with Some show ?thesis by (simp add: unpin_page_def Let_def nth_list_update)
  next
    case False
    with Some show ?thesis by (simp add: unpin_page_def Let_def list_update_beyond)
  qed
qed

lemma insert_record_effect:
  assumes fi: "file_inv fh" and ins: "insert_record fh buf = Inr (fh', r)"
  shows "file_inv fh' \<and> file_fd fh' = file_fd fh \<and>
         num_records_per_page (file_hdr fh') = num_records_per_page (file_hdr fh) \<and>
         record_size (file_hdr fh') = record_size (file_hdr fh) \<and>
         (r \<noteq> Rid (-1) (-1) \<longrightarrow>
            (\<exists>f. page_table (buffer_pool_manager fh') (PageId (file_fd fh) (Rid.page_no r)) = Some f \<and>
                 0 \<le> Rid.page_no r \<and> Rid.page_no r < num_pages (file_hdr fh') \<and>
                 0 \<le> slot_no r \<and> slot_no r < num_records_per_page (file_hdr fh) \<and>
                 read_slot (slot_offset (file_hdr fh) (slot_no r)) (nat (record_size (file_hdr fh)))
                    (data (pages (buffer_pool_manager fh') ! f)) =
                 map (\<lambda>k. buf ! k) [0..<nat (record_size (file_hdr fh))]))"
proof -
  obtain fh1 h where cp: "create_page_handle fh = (fh1, h)" by (cases "create_page_handle fh")
  let ?n = "num_records_per_page (file_hdr fh1)"
  have hdr1: "?n = num_records_per_page (file_hdr fh)" "record_size (file_hdr fh1) = record_size (file_hdr fh)"
    using cp
    by (auto simp: create_page_handle_def create_new_page_handle_def Let_def
             split: if_splits prod.splits option.splits)
  from fi hdr1 have npos: "0 < ?n" by (simp add: file_inv_def)
  show ?thesis
  proof (cases h)
    case None
    with cp ins npos show ?thesis by (simp add: insert_record_def)
  next
    case (Some f)
    from create_page_handle_wf[OF fi cp[unfolded Some]] obtain p where hw: "handle_wf fh fh1 f p" ..
    let ?b = "buffer_pool_manager fh1" and ?h = "file_hdr fh1" and ?fd = "file_fd fh"
    let ?np = "num_pages (file_hdr fh1)"
    let ?pid = "PageId ?fd p"
    from hw have w: "bpm_inv ?b" "file_pool_inv {f} ?fd ?np ?b" "page_table ?b ?pid = Some f"
      "0 \<le> p" "p < ?np" "0 < pin_count (pages ?b ! f)" "file_fd fh1 = ?fd" "1 \<le> ?np"
      "counts_match fh1"
      "file_pool_inv {} ?fd ?np ?b \<or> bitmap (data (pages ?b ! f)) = (\<lambda>_. False)"
      by (auto simp: handle_wf_def)
    from bpm_inv_table[OF w(1,3)] have fl: "f < length (pages ?b)" "page_id (pages ?b ! f) = ?pid"
      by auto
    let ?bm = "bitmap (data (pages ?b ! f))"
    let ?s = "first_unset ?bm 0 (nat ?n)"
    show ?thesis
    proof (cases "int ?s = ?n")
      case True
      with cp Some ins have res: "fh' = fh1" "r = Rid (-1) (-1)"
        by (auto simp: insert_record_def Let_def)
      have "?bm \<noteq> (\<lambda>_. False)"
      proof
        assume "?bm = (\<lambda>_. False)"
        then have "?s = 0" using npos by (cases "nat ?n") auto
        with True npos show False by simp
      qed
      with w(10) have "file_pool_inv {} ?fd ?np ?b" by simp
      with w npos hdr1 show ?thesis
        unfolding res file_inv_def pool_wf_def by simp
    next
      case False
      with first_unset_bounds[of 0 ?bm "nat ?n"] npos
      have sl: "?s < nat ?n" by auto
      with first_unset_clear[of ?bm 0 "nat ?n"] have clr: "\<not> ?bm ?s" by simp
      let ?w = "write_slot (slot_offset ?h (int ?s)) (nat (record_size ?h)) buf"
      let ?g = "\<lambda>d. ((?w d)\<lparr>bitmap := (bitmap (?w d))(?s := True)\<rparr>)
                     \<lparr>num_records := num_records ((?w d)\<lparr>bitmap := (bitmap (?w d))(?s := True)\<rparr>) + 1\<rparr>"
      let ?m3 = "modify_data (modify_data (modify_data ?b f ?w) f
                   (\<lambda>d. d\<lparr>bitmap := (bitmap d)(?s := True)\<rparr>)) f
                   (\<lambda>d. d\<lparr>num_records := num_records d + 1\<rparr>)"
      have m3: "?m3 = modify_data ?b f ?g"
        by (simp only: modify_data_comp)
      let ?b4 = "fst (unpin_page (modify_data ?b f ?g) ?pid True)"
      obtain h1 where res: "fh' = fh1\<lparr>file_hdr := h1, buffer_pool_manager := ?b4\<rparr>"
        "r = Rid p (int ?s)" "num_pages h1 = ?np" "num_records_per_page h1 = ?n"
        "record_size h1 = record_size ?h"
      proof -
        let ?h1 = "if num_records (data (pages ?m3 ! f)) = ?n
                 then ?h\<lparr>first_free_page_no := next_free_page_no (data (pages ?m3 ! f))\<rparr> else ?h"
        have "insert_record fh buf =
                Inr (fh1\<lparr>file_hdr := ?h1, buffer_pool_manager := fst (unpin_page ?m3 (page_id (pages ?m3 ! f)) True)\<rparr>,
                     Rid (PageId.page_no (page_id (pages (fst (unpin_page ?m3 (page_id (pages ?m3 ! f)) True)) ! f))) (int ?s))"
          using cp Some False by (simp add: insert_record_def Let_def)
        with ins have "fh' = fh1\<lparr>file_hdr := ?h1, buffer_pool_manager := ?b4\<rparr>" "r = Rid p (int ?s)"
          unfolding m3 by (simp_all add: fl(2))
        moreover have "num_pages ?h1 = ?np" "num_records_per_page ?h1 = ?n" "record_size ?h1 = record_size ?h"
          by simp_all
        ultimately show ?thesis using that by blast
      qed
      from touch_wf[OF w(1,2,3,6), of ?g]
      have t: "bpm_inv ?b4" "file_pool_inv {} ?fd ?np ?b4"
        "\<forall>k. page_content ?b4 k = (if k = ?pid then ?g (page_content ?b ?pid) else page_content ?b k)"
        "page_table ?b4 = page_table ?b" "data (pages ?b4 ! f) = ?g (data (pages ?b ! f))"
        by auto
      have pc: "page_content ?b ?pid = data (pages ?b ! f)" using w(3) by (simp add: page_content_def)
      have "counts_match fh'"
        unfolding counts_match_iff
      proof (intro allI impI)
        fix q assume q: "1 \<le> q \<and> q < num_pages (file_hdr fh')"
        then have q1: "1 \<le> q \<and> q < ?np" by (simp add: res)
        with w(9) have ok: "page_ok ?n (page_content ?b (PageId ?fd q))"
          unfolding counts_match_iff by (simp add: file_page_def w(7))
        show "page_ok (num_records_per_page (file_hdr fh')) (file_page fh' q)"
        proof (cases "q = p")
          case True
          with ok pc have "num_records (data (pages ?b ! f)) = int (count_bits (nat ?n) ?bm)"
            by (simp add: page_ok_def)
          with count_bits_set[of ?s "nat ?n" ?bm, OF sl clr] True t(3) pc show ?thesis
            by (simp add: res file_page_def w(7) page_ok_def write_slot_def)
        next
          case False
          with ok t(3) show ?thesis
            by (simp add: res file_page_def w(7))
        qed
      qed
      with t w npos have "file_inv fh'"
        unfolding file_inv_def pool_wf_def by (simp add: res)
      moreover have "read_slot (slot_offset (file_hdr fh) (int ?s)) (nat (record_size (file_hdr fh)))
                       (data (pages ?b4 ! f)) = map (\<lambda>k. buf ! k) [0..<nat (record_size (file_hdr fh))]"
        unfolding t(5) by (simp add: read_slot_def write_slot_def hdr1 slot_offset_def)
      ultimately show ?thesis
        using t(4) w(3,4,5,7) sl hdr1
        by (simp add: res)
    qed
  qed
qed

lemma delete_record_inv:
  assumes fi: "file_inv fh" and ok: "delete_ok fh r" and del: "delete_record fh r = Inr fh'"
  shows "file_inv fh'"
proof -
  let ?b0 = "buffer_pool_manager fh" and ?fd = "file_fd fh" and ?np = "num_pages (file_hdr fh)"
  let ?n = "num_records_per_page (file_hdr fh)" and ?p = "Rid.page_no r"
  from fi have wf: "pool_wf {} ?fd ?np ?b0" and np: "1 \<le> ?np" and cm: "counts_match fh"
    and npos: "0 < ?n"
    by (auto simp: file_inv_def)
  obtain b h where fp: "fetch_page_handle fh ?p = (b, h)" by (cases "fetch_page_handle fh ?p")
  from fetch_page_handle_wf[OF wf, of ?p] fp
  have w: "pool_wf {} ?fd ?np b" "\<forall>k. page_content b k = page_content ?b0 k"
    "\<forall>f. h = Some f \<longrightarrow> 0 \<le> ?p \<and> ?p < ?np \<and> page_table b (PageId ?fd ?p) = Some f \<and>
          0 < pin_count (pages b ! f)"
    by auto
  have keep: "file_inv (fh\<lparr>buffer_pool_manager := b\<rparr>)"
    using w(1,2) np npos cm unfolding file_inv_def counts_match_iff by (simp add: file_page_def)
  show ?thesis
  proof (cases h)
    case None
    with fp del have "fh' = fh\<lparr>buffer_pool_manager := b\<rparr>" by (simp add: delete_record_def)
    with keep show ?thesis by simp
  next
    case (Some f)
    show ?thesis
    proof (cases "?n \<le> slot_no r")
      case True
      with fp Some del have "fh' = fh\<lparr>buffer_pool_manager := b\<rparr>"
        by (simp add: delete_record_def Let_def)
      with keep show ?thesis by simp
    next
      case False
      with fp Some del have nn: "\<not> slot_no r < 0" by (auto simp: delete_record_def Let_def)
      let ?pid = "PageId ?fd ?p"
      let ?s = "nat (slot_no r)"
      from w(3) Some have f: "0 \<le> ?p" "?p < ?np" "page_table b ?pid = Some f" "0 < pin_count (pages b ! f)"
        by auto
      from w(1) have inv: "bpm_inv b" and fpi: "file_pool_inv {f} ?fd ?np b"
        by (auto simp: pool_wf_def file_pool_inv_open)
      from bpm_inv_table[OF inv f(3)] have fl: "f < length (pages b)" "page_id (pages b ! f) = ?pid"
        by auto
      from ok False f(1,2) have occ: "occupied fh r" by (auto simp: delete_ok_def)
      have pc: "page_content b ?pid = data (pages b ! f)" using f(3) by (simp add: page_content_def)
      from occ w(2) pc have bit: "1 \<le> ?p" "bitmap (data (pages b ! f)) ?s"
        by (auto simp: occupied_def file_page_def)
      from False nn have sl: "?s < nat ?n" by simp
      let ?g = "\<lambda>d. (d\<lparr>bitmap := (bitmap d)(?s := False)\<rparr>)
                     \<lparr>num_records := num_records (d\<lparr>bitmap := (bitmap d)(?s := False)\<rparr>) - 1\<rparr>"
      let ?m2 = "modify_data (modify_data b f (\<lambda>d. d\<lparr>bitmap := (bitmap d)(?s := False)\<rparr>)) f
                   (\<lambda>d. d\<lparr>num_records := num_records d - 1\<rparr>)"
      have m2: "?m2 = modify_data b f ?g" by (simp only: modify_data_comp)
      let ?b3 = "fst (unpin_page (modify_data b f ?g) ?pid True)"
      from touch_wf[OF inv fpi f(3,4), of ?g]
      have t: "bpm_inv ?b3" "file_pool_inv {} ?fd ?np ?b3"
        "\<forall>k. page_content ?b3 k = (if k = ?pid then ?g (page_content b ?pid) else page_content b k)"
        "page_table ?b3 = page_table b" "data (pages ?b3 ! f) = ?g (data (pages b ! f))"
        "page_id (pages ?b3 ! f) = ?pid" "dirty (pages ?b3 ! f)" "f < length (pages ?b3)"
        by auto
      let ?fh1 = "fh\<lparr>buffer_pool_manager := ?b3\<rparr>"
      have res: "fh' = (if num_records (data (pages ?b3 ! f)) = ?n - 1
                        then release_page_handle ?fh1 f else ?fh1)"
      proof -
        have "delete_record fh r =
               (if num_records (data (pages (fst (unpin_page ?m2 (page_id (pages ?m2 ! f)) True)) ! f)) = ?n - 1
                then Inr (release_page_handle (fh\<lparr>buffer_pool_manager := fst (unpin_page ?m2 (page_id (pages ?m2 ! f)) True)\<rparr>) f)
                else Inr (fh\<lparr>buffer_pool_manager := fst (unpin_page ?m2 (page_id (pages ?m2 ! f)) True)\<rparr>))"
          using fp Some False nn by (simp add: delete_record_def Let_def)
        with del show ?thesis unfolding m2 by (simp add: fl(2) split: if_splits)
      qed
      have ok_page: "\<And>q. 1 \<le> q \<and> q < ?np \<Longrightarrow> page_ok ?n (page_content ?b3 (PageId ?fd q))"
      proof -
        fix q assume q: "1 \<le> q \<and> q < ?np"
        with cm w(2) have okq: "page_ok ?n (page_content b (PageId ?fd q))"
          unfolding counts_match_iff by (simp add: file_page_def)
        show "page_ok ?n (page_content ?b3 (PageId ?fd q))"
        proof (cases "q = ?p")
          case True
          with okq pc have "num_records (data (pages b ! f)) = int (count_bits (nat ?n) (bitmap (data (pages b ! f))))"
            by (simp add: page_ok_def)
          with count_bits_reset[of ?s "nat ?n" "bitmap (data (pages b ! f))", OF sl bit(2)] True t(3) pc
          show ?thesis by (simp add: page_ok_def)
        next
          case False
          with okq t(3) show ?thesis by simp
        qed
      qed
      have fi1: "file_inv ?fh1"
        using t(1,2) np npos ok_page unfolding file_inv_def counts_match_iff pool_wf_def
        by (simp add: file_page_def)
      show ?thesis
      proof (cases "num_records (data (pages ?b3 ! f)) = ?n - 1")
        case False
        with res fi1 show ?thesis by simp
      next
        case True
        let ?gr = "\<lambda>d. d\<lparr>next_free_page_no := first_free_page_no (file_hdr fh)\<rparr>"
        let ?b4 = "modify_data ?b3 f ?gr"
        from True res have fh': "fh' = fh\<lparr>buffer_pool_manager := ?b4,
             file_hdr := (file_hdr fh)\<lparr>first_free_page_no := PageId.page_no (page_id (pages ?b4 ! f))\<rparr>\<rparr>"
          by (simp add: release_page_handle_def Let_def)
        have i4: "bpm_inv ?b4" using t(1) by (rule modify_data_inv)
        have f4: "file_pool_inv {} ?fd ?np ?b4"
          using t(2,7,8) by (simp add: modify_data_file_inv)
        have c4: "\<And>k. page_ok ?n (page_content ?b4 k) = page_ok ?n (page_content ?b3 k)"
          using modify_data_content[OF t(8) t(1), of ?gr] by (simp add: page_ok_def)
        show ?thesis
          using i4 f4 np npos ok_page c4 unfolding fh' file_inv_def counts_match_iff pool_wf_def
          by (simp add: file_page_def)
      qed
    qed
  qed
qed

lemma file_inv_fresh:
  assumes "0 < n" and "fd2pageno d fdv = 1"
  shows "file_inv \<lparr>file_hdr = \<lparr>record_size = rs, num_pages = 1, num_records_per_page = n,
                               first_free_page_no = ff\<rparr>,
                   file_fd = fdv, buffer_pool_manager = new_BufferPoolManager k d\<rparr>"
proof -
  have "file_pool_inv {} fdv 1 (new_BufferPoolManager k d)"
    using assms(2)
    by (simp add: file_pool_inv_def new_BufferPoolManager_def new_LRUReplacer_def new_Page_def
          INVALID_PAGE_ID_def)
  with assms(1) bpm_inv_new[of k d] show ?thesis
    by (simp add: file_inv_def pool_wf_def counts_match_def)
qed

lemma file_inv_fh0: "file_inv fh0"
  unfolding fh0_def RM_NO_PAGE_def by (rule file_inv_fresh) (simp_all add: disk0_def)

lemma run_ops_inv:
  "file_inv fh \<Longrightarrow> valid_ops fh ops \<Longrightarrow> run_ops fh ops = Inr fh' \<Longrightarrow> file_inv fh'"
proof (induction ops arbitrary: fh)
  case Nil
  then show ?case by simp
next
  case (Cons c ops)
  show ?case
  proof (cases c)
    case (Insert buf)
    with Cons.prems(3) obtain fh1 r where i: "insert_record fh buf = Inr (fh1, r)"
      and rest: "run_ops fh1 ops = Inr fh'"
      by (auto split: sum.splits)
    from insert_record_effect[OF Cons.prems(1) i] have "file_inv fh1" by simp
    moreover from Cons.prems(2) Insert i have "valid_ops fh1 ops" by simp
    ultimately show ?thesis using rest by (rule Cons.IH)
  next
    case (Delete r)
    with Cons.prems(3) obtain fh1 where d: "delete_record fh r = Inr fh1"
      and rest: "run_ops fh1 ops = Inr fh'"
      by (auto split: sum.splits)
    from Cons.prems(2) Delete d have v: "delete_ok fh r" "valid_ops fh1 ops" by simp_all
    from delete_record_inv[OF Cons.prems(1) v(1) d] have "file_inv fh1" .
    then show ?thesis using v(2) rest by (rule Cons.IH)
  qed
qed

section \<open>Where an inserted record lands\<close>

lemma unpin_page_keeps [simp]:
  "page_table (fst (unpin_page b pid d)) = page_table b"
  "disk_manager (fst (unpin_page b pid d)) = disk_manager b"
  "length (pages (fst (unpin_page b pid d))) = length (pages b)"
  by (simp_all add: unpin_page_def Let_def split: option.splits)

lemma unpin_page_data [simp]:
  "data (pages (fst (unpin_page b pid d)) ! i) = data (pages b ! i)"
proof (cases "page_table b pid")
  case None then show ?thesis by (simp add: unpin_page_def)
next
  case (Some f)
  show ?thesis
  proof (cases "f < length (pages b)")
    case True
    with Some show ?thesis by (simp add: unpin_page_def Let_def nth_list_update)
  next
    case False
    with Some show ?thesis by (simp add: unpin_page_def Let_def list_update_beyond)
  qed
qed

lemma fetch_page_Some_table:
  assumes "fetch_page b pid = (b1, Some f)"
  shows "page_table b1 pid = Some f"
proof (cases "page_table b pid")
  case (Some g)
  with assms show ?thesis by (auto simp: fetch_page_def Let_def)
next
  case None
  with assms show ?thesis
    by (auto simp: fetch_page_def update_page_def Let_def split: prod.splits option.splits)
qed

lemma find_victim_page_disk: "find_victim_page b = (b1, v) \<Longrightarrow> disk_manager b1 = disk_manager b"
  by (auto simp: find_victim_page_def split: list.splits prod.splits option.splits)

lemma new_page_Some_table:
  assumes "new_page b fdv = (b1, Some (f, pid))"
  shows "page_table b1 pid = Some f \<and> pid = PageId fdv (fd2pageno (disk_manager b) fdv)"
proof -
  obtain b0 v where fv: "find_victim_page b = (b0, v)" by (cases "find_victim_page b")
  from find_victim_page_disk[OF fv] have d: "disk_manager b0 = disk_manager b" .
  from assms fv d show ?thesis
    by (auto simp: new_page_def update_page_def allocate_page_def Let_def
             split: option.splits if_splits)
qed

text \<open>Where a page handle obtained by \<^verbatim>\<open>create_page_handle\<close> points.\<close>

lemma create_page_handle_table:
  assumes inv: "bpm_inv (buffer_pool_manager fh)"
    and cnt: "0 \<le> fd2pageno (disk_manager (buffer_pool_manager fh)) (file_fd fh)"
             "fd2pageno (disk_manager (buffer_pool_manager fh)) (file_fd fh) \<le> num_pages (file_hdr fh)"
    and cp: "create_page_handle fh = (fh1, Some f)"
  shows "\<exists>p. bpm_inv (buffer_pool_manager fh1) \<and>
             page_table (buffer_pool_manager fh1) (PageId (file_fd fh) p) = Some f \<and>
             0 \<le> p \<and> p < num_pages (file_hdr fh1) \<and> file_fd fh1 = file_fd fh \<and>
             num_records_per_page (file_hdr fh1) = num_records_per_page (file_hdr fh) \<and>
             record_size (file_hdr fh1) = record_size (file_hdr fh)"
proof (cases "first_free_page_no (file_hdr fh) = RM_NO_PAGE")
  case True
  let ?b = "buffer_pool_manager fh" and ?fd = "file_fd fh"
  obtain b' r where nw: "new_page ?b ?fd = (b', r)" by (cases "new_page ?b ?fd")
  with cp True obtain pid where r: "r = Some (f, pid)"
    by (cases r) (auto simp: create_page_handle_def create_new_page_handle_def Let_def)
  let ?g = "\<lambda>d. (d\<lparr>next_free_page_no := RM_NO_PAGE\<rparr>)\<lparr>num_records := 0\<rparr>"
  from cp True nw r have fh1: "fh1 = fh\<lparr>buffer_pool_manager := modify_data b' f ?g,
                  file_hdr := (file_hdr fh)\<lparr>num_pages := num_pages (file_hdr fh) + 1\<rparr>\<rparr>"
    by (simp add: create_page_handle_def create_new_page_handle_def Let_def modify_data_comp)
  from new_page_Some_table[OF nw[unfolded r]]
  have t: "page_table b' pid = Some f" "pid = PageId ?fd (fd2pageno (disk_manager ?b) ?fd)" by auto
  have "bpm_inv b'" using bpm_inv_new_page[OF inv, of ?fd] nw by simp
  then have "bpm_inv (modify_data b' f ?g)" by (rule modify_data_inv)
  with t cnt show ?thesis unfolding fh1 by auto
next
  case False
  let ?p = "first_free_page_no (file_hdr fh)"
  obtain b1 h where fp: "fetch_page_handle fh ?p = (b1, h)" by (cases "fetch_page_handle fh ?p")
  with cp False have fh1: "fh1 = fh\<lparr>buffer_pool_manager := b1\<rparr>" and h: "h = Some f"
    by (auto simp: create_page_handle_def)
  from fp h have rng: "0 \<le> ?p" "?p < num_pages (file_hdr fh)"
    and f: "fetch_page (buffer_pool_manager fh) (PageId (file_fd fh) ?p) = (b1, Some f)"
    by (auto simp: fetch_page_handle_def split: if_splits)
  from bpm_inv_fetch_page[OF inv, of "PageId (file_fd fh) ?p"] f have "bpm_inv b1" by simp
  with fetch_page_Some_table[OF f] rng show ?thesis unfolding fh1 by auto
qed

section \<open>The claims\<close>

subsection \<open>C1: a victim frame is never in use\<close>

text \<open>
  Claim C1 says that the frame selected for reuse has pin count 0, so that no page is evicted
  while a caller still holds it pinned. The pin count of the selected frame is 0 in every
  reachable state (\<open>victim_frame_unpinned\<close>), but a caller can still hold the frame.
  \<^verbatim>\<open>delete_page\<close> resets the frame's data only and leaves its page id; when the frame is
  reused, \<^verbatim>\<open>update_page\<close> erases the page table entry of that stale id, which by then belongs
  to another frame. On a pool of two frames: page A is fetched, unpinned and deleted (frame
  0 goes to the free list and keeps the id A); A is fetched again by a first caller (frame
  1); B is fetched (frame 0), which erases the entry of A although frame 1 is pinned; a
  fetch of C finds no frame; B is unpinned; A is fetched by a second caller, which misses
  and is given frame 0; the first caller unpins A, which releases frame 0, the frame of
  the second caller; a fetch of D then selects frame 0, whose pin count is 0, and overwrites
  it while the second caller, who never unpinned, still holds it.
\<close>

theorem held_frame_reused_after_delete_page:
  "(let b0 = new_BufferPoolManager 2 disk0;
        A = PageId 0 1; B = PageId 0 2; C = PageId 0 3; D = PageId 0 4;
        b1 = fst (fetch_page b0 A);
        b2 = fst (unpin_page b1 A False);
        b3 = fst (delete_page b2 A);
        b4 = fst (fetch_page b3 A);
        b5 = fst (fetch_page b4 B);
        b6 = fst (fetch_page b5 C);
        b7 = fst (unpin_page b6 B False);
        b8 = fst (fetch_page b7 A);
        b9 = fst (unpin_page b8 A False);
        b10 = fst (fetch_page b9 D)
    in snd (delete_page b2 A) \<and> page_id (pages b3 ! 0) = A \<and>
       snd (fetch_page b3 A) = Some 1 \<and>
       snd (fetch_page b4 B) = Some 0 \<and> page_table b5 A = None \<and>
       page_id (pages b5 ! 1) = A \<and> pin_count (pages b5 ! 1) = 1 \<and>
       snd (fetch_page b5 C) = None \<and>
       snd (unpin_page b6 B False) \<and>
       snd (fetch_page b7 A) = Some 0 \<and> pin_count (pages b8 ! 0) = 1 \<and>
       snd (unpin_page b8 A False) \<and> pin_count (pages b9 ! 0) = 0 \<and>
       pin_count (pages b9 ! 1) = 1 \<and>
       snd (fetch_page b9 D) = Some 0 \<and> page_id (pages b10 ! 0) = D \<and>
       page_table b10 A = None)"
  by code_simp

subsection \<open>C2: insert, then get\<close>

text \<open>
  Claim C2. Let the pool satisfy \<open>bpm_inv\<close> (every reachable pool state does, and the record
  layer's writes through page handles keep it), let the disk manager's page counter for the
  file not be ahead of the header's page count (opening a file sets them equal), and let the
  header's page capacity not be negative. If \<^verbatim>\<open>insert_record\<close> of a payload of exactly
  \<^verbatim>\<open>record_size\<close> bytes succeeds, that is, returns an Rid other than the invalid Rid (-1, -1),
  then \<^verbatim>\<open>get_record\<close> of the returned Rid, called next, returns the payload.
\<close>

theorem insert_then_get_record:
  assumes inv: "bpm_inv (buffer_pool_manager fh)"
    and cnt: "0 \<le> fd2pageno (disk_manager (buffer_pool_manager fh)) (file_fd fh)"
             "fd2pageno (disk_manager (buffer_pool_manager fh)) (file_fd fh) \<le> num_pages (file_hdr fh)"
    and npp: "0 \<le> num_records_per_page (file_hdr fh)"
    and len: "int (length buf) = record_size (file_hdr fh)"
    and ins: "insert_record fh buf = Inr (fh', r)" and ok: "r \<noteq> Rid (-1) (-1)"
  shows "snd (get_record fh' r) = Some buf"
proof -
  obtain fh1 h where cp: "create_page_handle fh = (fh1, h)" by (cases "create_page_handle fh")
  let ?n = "num_records_per_page (file_hdr fh1)"
  show ?thesis
  proof (cases h)
    case None
    with cp ins ok show ?thesis by (auto simp: insert_record_def split: if_splits)
  next
    case (Some f)
    from create_page_handle_table[OF inv cnt cp[unfolded Some]] obtain p where
      w: "bpm_inv (buffer_pool_manager fh1)"
         "page_table (buffer_pool_manager fh1) (PageId (file_fd fh) p) = Some f"
         "0 \<le> p" "p < num_pages (file_hdr fh1)" "file_fd fh1 = file_fd fh"
         "?n = num_records_per_page (file_hdr fh)"
         "record_size (file_hdr fh1) = record_size (file_hdr fh)"
      by auto
    let ?b = "buffer_pool_manager fh1" and ?h = "file_hdr fh1"
    let ?pid = "PageId (file_fd fh) p"
    from bpm_inv_table[OF w(1,2)] have fl: "f < length (pages ?b)" "page_id (pages ?b ! f) = ?pid"
      by auto
    let ?bm = "bitmap (data (pages ?b ! f))"
    let ?s = "first_unset ?bm 0 (nat ?n)"
    have ne: "int ?s \<noteq> ?n"
      using cp Some ins ok by (auto simp: insert_record_def Let_def split: if_splits)
    with first_unset_bounds[of 0 ?bm "nat ?n"] npp w(6) have sl: "int ?s < ?n" by auto
    let ?w = "write_slot (slot_offset ?h (int ?s)) (nat (record_size ?h)) buf"
    let ?g = "\<lambda>d. ((?w d)\<lparr>bitmap := (bitmap (?w d))(?s := True)\<rparr>)
                   \<lparr>num_records := num_records ((?w d)\<lparr>bitmap := (bitmap (?w d))(?s := True)\<rparr>) + 1\<rparr>"
    let ?m3 = "modify_data (modify_data (modify_data ?b f ?w) f
                 (\<lambda>d. d\<lparr>bitmap := (bitmap d)(?s := True)\<rparr>)) f
                 (\<lambda>d. d\<lparr>num_records := num_records d + 1\<rparr>)"
    have m3: "?m3 = modify_data ?b f ?g" by (simp only: modify_data_comp)
    let ?b4 = "fst (unpin_page (modify_data ?b f ?g) ?pid True)"
    obtain h1 where res: "fh' = fh1\<lparr>file_hdr := h1, buffer_pool_manager := ?b4\<rparr>"
      "r = Rid p (int ?s)" "num_pages h1 = num_pages ?h" "num_records_per_page h1 = ?n"
      "record_size h1 = record_size ?h"
    proof -
      let ?h1 = "if num_records (data (pages ?m3 ! f)) = ?n
               then ?h\<lparr>first_free_page_no := next_free_page_no (data (pages ?m3 ! f))\<rparr> else ?h"
      have "insert_record fh buf =
              Inr (fh1\<lparr>file_hdr := ?h1, buffer_pool_manager := fst (unpin_page ?m3 (page_id (pages ?m3 ! f)) True)\<rparr>,
                   Rid (PageId.page_no (page_id (pages (fst (unpin_page ?m3 (page_id (pages ?m3 ! f)) True)) ! f))) (int ?s))"
        using cp Some ne by (simp add: insert_record_def Let_def)
      with ins have "fh' = fh1\<lparr>file_hdr := ?h1, buffer_pool_manager := ?b4\<rparr>" "r = Rid p (int ?s)"
        unfolding m3 by (simp_all add: fl(2))
      moreover have "num_pages ?h1 = num_pages ?h" "num_records_per_page ?h1 = ?n"
        "record_size ?h1 = record_size ?h"
        by simp_all
      ultimately show ?thesis using that by blast
    qed
    have hf: "file_hdr fh' = h1" "buffer_pool_manager fh' = ?b4" "file_fd fh' = file_fd fh"
      using res(1) w(5) by simp_all
    have rp: "Rid.page_no r = p" "slot_no r = int ?s" using res(2) by simp_all
    have tb4: "page_table ?b4 ?pid = Some f" using w(2) by simp
    have fl4: "f < length (pages ?b4)" using fl(1) by simp
    have d4: "data (pages ?b4 ! f) = ?g (data (pages ?b ! f))"
      using fl(1) by (simp add: modify_data_data)
    have fph: "fetch_page_handle fh' p =
      (?b4\<lparr>pages := (pages ?b4)[f := (pages ?b4 ! f)\<lparr>pin_count := pin_count (pages ?b4 ! f) + 1\<rparr>],
         replacer := pin (replacer ?b4) f\<rparr>, Some f)"
      using tb4 w(3,4) by (simp add: fetch_page_handle_def fetch_page_def Let_def hf res(3))
    from len have buf: "map (\<lambda>k. buf ! k) [0..<nat (record_size (file_hdr fh))] = buf"
      by (simp add: map_nth flip: len)
    have so: "slot_offset h1 (int ?s) = slot_offset ?h (int ?s)"
      by (simp add: slot_offset_def res(5))
    have "read_slot (slot_offset h1 (int ?s)) (nat (record_size h1)) (data (pages ?b4 ! f)) =
          read_slot (slot_offset ?h (int ?s)) (nat (record_size ?h)) (?w (data (pages ?b ! f)))"
      unfolding d4 so res(5) by (simp add: read_slot_def)
    also have "\<dots> = map (\<lambda>k. buf ! k) [0..<nat (record_size ?h)]"
      by (rule read_write_slot)
    also have "\<dots> = buf" using buf by (simp add: w(7))
    finally have "read_slot (slot_offset h1 (int ?s)) (nat (record_size h1)) (data (pages ?b4 ! f)) = buf" .
    then show ?thesis
      using sl fl4 by (simp add: get_record_def rp fph Let_def hf res(4))
  qed
qed

text \<open>Witness: the first insert into the empty file.\<close>

theorem insert_then_get_record_witness:
  "bpm_inv (buffer_pool_manager fh0) \<and>
   0 \<le> fd2pageno (disk_manager (buffer_pool_manager fh0)) (file_fd fh0) \<and>
   fd2pageno (disk_manager (buffer_pool_manager fh0)) (file_fd fh0) \<le> num_pages (file_hdr fh0) \<and>
   0 \<le> num_records_per_page (file_hdr fh0) \<and>
   int (length ''ab'') = record_size (file_hdr fh0) \<and>
   insert_record fh0 ''ab'' = Inr (after_insert fh0 ''ab'', Rid 1 0) \<and>
   Rid 1 0 \<noteq> Rid (-1) (-1) \<and>
   snd (get_record (after_insert fh0 ''ab'') (Rid 1 0)) = Some ''ab''"
proof -
  have b: "bpm_inv (buffer_pool_manager fh0)" by (simp add: fh0_def bpm_inv_new)
  have c: "0 \<le> fd2pageno (disk_manager (buffer_pool_manager fh0)) (file_fd fh0)"
    "fd2pageno (disk_manager (buffer_pool_manager fh0)) (file_fd fh0) \<le> num_pages (file_hdr fh0)"
    "0 \<le> num_records_per_page (file_hdr fh0)"
    "int (length ''ab'') = record_size (file_hdr fh0)"
    by (simp_all add: fh0_def new_BufferPoolManager_def disk0_def)
  have "map_sum id snd (insert_record fh0 ''ab'') = Inr (Rid 1 0)" by code_simp
  then have i: "insert_record fh0 ''ab'' = Inr (after_insert fh0 ''ab'', Rid 1 0)"
    by (cases "insert_record fh0 ''ab''") (auto simp: after_insert_def)
  have n: "Rid 1 0 \<noteq> Rid (-1) (-1)" by simp
  from insert_then_get_record[OF b c i n] b c i n show ?thesis by blast
qed

subsection \<open>C3: pins taken by the record layer\<close>

text \<open>
  Claim C3 says that every record operation unpins what it pinned. \<^verbatim>\<open>get_record\<close> never calls
  \<^verbatim>\<open>unpin_page\<close>: after one insert into the empty file, whose page (3, 1) is left with pin
  count 0, a \<^verbatim>\<open>get_record\<close> of the inserted record returns it and leaves the page with pin
  count 1, and so does a \<^verbatim>\<open>get_record\<close> that fails on a slot number out of range.
\<close>

theorem get_record_leaves_page_pinned:
  "(let fh1 = after_insert fh0 ''ab''; pid = PageId 3 1
    in map_sum id snd (insert_record fh0 ''ab'') = Inr (Rid 1 0) \<and>
       pin_count_of (buffer_pool_manager fh1) pid = 0 \<and>
       snd (get_record fh1 (Rid 1 0)) = Some ''ab'' \<and>
       pin_count_of (buffer_pool_manager (fst (get_record fh1 (Rid 1 0)))) pid = 1 \<and>
       snd (get_record fh1 (Rid 1 7)) = None \<and>
       pin_count_of (buffer_pool_manager (fst (get_record fh1 (Rid 1 7)))) pid = 1)"
  by code_simp

subsection \<open>C4: the dirty flag under unpin\<close>

text \<open>
  Claim C4 says that \<^verbatim>\<open>unpin_page\<close> ORs \<open>is_dirty\<close> into the frame's dirty flag. The code
  assigns it (\<^verbatim>\<open>target_page->is_dirty_ = is_dirty\<close>): with page (0, 1) fetched twice, the
  first unpin marks it dirty and the second unpin, with \<open>is_dirty = false\<close>, marks the still
  resident and never flushed page clean again.
\<close>

theorem unpin_page_overwrites_dirty:
  "(let b0 = new_BufferPoolManager 1 disk0;
        b1 = fst (fetch_page b0 PA);
        b2 = fst (fetch_page b1 PA);
        b3 = fst (unpin_page b2 PA True);
        b4 = fst (unpin_page b3 PA False)
    in page_table b4 PA = Some 0 \<and> dirty (pages b3 ! 0) \<and> dirty (pages b4 ! 0) = False \<and>
       snd (unpin_page b2 PA True) \<and> snd (unpin_page b3 PA False))"
  by (simp add: pool_defs PA_def)

subsection \<open>C5: the free-page list\<close>

text \<open>
  Claim C5 says that a page is reachable from \<^verbatim>\<open>first_free_page_no\<close> exactly when it has a free
  slot. \<^verbatim>\<open>create_new_page_handle\<close> does not link the page it creates: with four records per
  page, the first insert into the empty file creates page 1, which then holds one record,
  and leaves \<^verbatim>\<open>first_free_page_no\<close> at \<^verbatim>\<open>RM_NO_PAGE\<close>; the second insert creates page 2 instead of
  using page 1.
\<close>

theorem new_page_not_linked_into_free_list:
  "(let fh1 = after_insert fh0 ''ab''; fh2 = after_insert fh1 ''cd''
    in map_sum id snd (insert_record fh0 ''ab'') = Inr (Rid 1 0) \<and>
       num_records (data (pages (buffer_pool_manager fh1) ! 0)) = 1 \<and>
       page_id (pages (buffer_pool_manager fh1) ! 0) = PageId 3 1 \<and>
       first_free_page_no (file_hdr fh1) = RM_NO_PAGE \<and>
       map_sum id snd (insert_record fh1 ''cd'') = Inr (Rid 2 0) \<and>
       num_pages (file_hdr fh2) = 3)"
  by code_simp

subsection \<open>C6: the record count and the bitmap\<close>

text \<open>
  Claim C6, as stated, lets \<^verbatim>\<open>delete_record\<close> be called with any Rid. \<^verbatim>\<open>delete_record\<close> does not
  look at the bitmap bit before it decrements \<^verbatim>\<open>num_records\<close>: on the empty file, after one
  insert (slot 0 of page 1), a delete of the free slot 1 of page 1 leaves \<^verbatim>\<open>num_records = 0\<close>
  with one bit set.
\<close>

theorem delete_of_free_slot_breaks_count:
  "file_inv fh0 \<and>
   isl (run_ops fh0 [Insert ''ab'', Delete (Rid 1 1)]) = False \<and>
   counts_match (the_file (run_ops fh0 [Insert ''ab'', Delete (Rid 1 1)])) = False \<and>
   num_records (file_page (the_file (run_ops fh0 [Insert ''ab'', Delete (Rid 1 1)])) 1) = 0 \<and>
   count_bits 4 (bitmap (file_page (the_file (run_ops fh0 [Insert ''ab'', Delete (Rid 1 1)])) 1)) = 1"
proof -
  have "isl (run_ops fh0 [Insert ''ab'', Delete (Rid 1 1)]) = False \<and>
   counts_match (the_file (run_ops fh0 [Insert ''ab'', Delete (Rid 1 1)])) = False \<and>
   num_records (file_page (the_file (run_ops fh0 [Insert ''ab'', Delete (Rid 1 1)])) 1) = 0 \<and>
   count_bits 4 (bitmap (file_page (the_file (run_ops fh0 [Insert ''ab'', Delete (Rid 1 1)])) 1)) = 1"
    by code_simp
  with file_inv_fh0 show ?thesis by blast
qed

text \<open>
  Claim C6, amended. From a file that satisfies \<open>file_inv\<close> (an empty file on a fresh pool
  does), after every sequence of \<^verbatim>\<open>insert_record\<close> and \<^verbatim>\<open>delete_record\<close> calls in which each
  \<^verbatim>\<open>delete_record\<close> is passed an Rid that the code rejects (page number out of range, or slot
  number at or above the page capacity) or the Rid of an occupied slot of a data page, every
  data page's \<^verbatim>\<open>num_records\<close> equals the number of set bits of its bitmap. The pages are
  read where they are: in the frame when resident, on disk otherwise.
\<close>

theorem num_records_counts_set_bits:
  assumes "file_inv fh" and "valid_ops fh ops" and "run_ops fh ops = Inr fh'"
  shows "counts_match fh'"
  using run_ops_inv[OF assms] by (simp add: file_inv_def)

text \<open>Witness: two inserts, a delete of the first record and another insert on the empty file.\<close>

theorem num_records_counts_set_bits_witness:
  "file_inv fh0 \<and>
   valid_ops fh0 [Insert ''ab'', Insert ''cd'', Delete (Rid 1 0), Insert ''ef''] \<and>
   isl (run_ops fh0 [Insert ''ab'', Insert ''cd'', Delete (Rid 1 0), Insert ''ef'']) = False \<and>
   counts_match (the_file (run_ops fh0 [Insert ''ab'', Insert ''cd'', Delete (Rid 1 0), Insert ''ef'']))"
proof -
  let ?ops = "[Insert ''ab'', Insert ''cd'', Delete (Rid 1 0), Insert ''ef'']"
  have v: "valid_ops fh0 ?ops" by code_simp
  have r: "isl (run_ops fh0 ?ops) = False" by code_simp
  then have e: "run_ops fh0 ?ops = Inr (the_file (run_ops fh0 ?ops))"
    by (cases "run_ops fh0 ?ops") (simp_all add: the_file_def)
  from num_records_counts_set_bits[OF file_inv_fh0 v e] file_inv_fh0 v r show ?thesis by blast
qed

subsection \<open>C7: the scan and its end\<close>

text \<open>
  Claim C7 says that a scan of the file \<^verbatim>\<open>[P0: slots {0,2}, P1: slots {1}]\<close> yields the three
  Rids in order and reports the end only after the last one. \<^verbatim>\<open>next\<close> visits them in this
  order, but \<^verbatim>\<open>is_end\<close> compares the slot number with the page's record count: at the
  second record, slot 2 of the first data page, which holds 2 records, \<^verbatim>\<open>is_end\<close> is already
  true, before the record of the second data page has been visited. A caller that loops
  until \<^verbatim>\<open>is_end\<close> sees the first record only.
\<close>

theorem is_end_before_last_record:
  "(let s0 = new_RmScan scan_file; s1 = is_end_then_next s0; s2 = is_end_then_next s1
    in occupied scan_file (Rid 1 0) \<and> occupied scan_file (Rid 1 2) \<and> occupied scan_file (Rid 2 1) \<and>
       rid_of s0 = Some (Rid 1 0) \<and> end_of s0 = Some False \<and>
       rid_of s1 = Some (Rid 1 2) \<and> end_of s1 = Some True \<and>
       rid_of s2 = Some (Rid 2 1) \<and> end_of s2 = Some True)"
  by code_simp

subsection \<open>C8: a failed operation and the shared state\<close>

text \<open>
  Claim C8 says that a failed \<^verbatim>\<open>new_page\<close> leaves the free list, the replacer and the page
  table as they were. The code takes the victim frame first and returns \<^verbatim>\<open>nullptr\<close> when
  \<^verbatim>\<open>allocate_page\<close> fails without giving the frame back: on a fresh pool of two frames whose
  disk cannot allocate, the call fails and frame 0 is on neither the free list nor in the
  replacer afterwards.
\<close>

theorem new_page_failure_loses_frame:
  "(let b0 = new_BufferPoolManager 2 (disk0\<lparr>can_allocate := (\<lambda>_. False)\<rparr>)
    in snd (new_page b0 0) = None \<and> free_list b0 = [0, 1] \<and> free_list (fst (new_page b0 0)) = [1] \<and>
       LRUlist (replacer (fst (new_page b0 0))) = [])"
  by (simp add: pool_defs)

subsection \<open>C9: the pin count is fetches minus unpins\<close>

lemma pin_count_of_nonneg: "bpm_inv b \<Longrightarrow> 0 \<le> pin_count_of b pid"
  by (auto simp: bpm_inv_def pin_count_of_def split: option.splits)

lemma fetch_page_pin_count:
  assumes inv: "bpm_inv b" and fp: "fetch_page b pid = (b1, r)"
  shows "pin_count_of b1 pid = pin_count_of b pid + (if r \<noteq> None then 1 else 0)"
proof (cases "page_table b pid")
  case (Some f)
  with inv have "f < length (pages b)" by (auto simp: bpm_inv_def)
  with Some fp show ?thesis
    by (auto simp: fetch_page_def pin_count_of_def Let_def)
next
  case None
  obtain b0 v where fv: "find_victim_page b = (b0, v)" by (cases "find_victim_page b")
  show ?thesis
  proof (cases v)
    case None
    with fv have "b0 = b" by (simp add: find_victim_page_None)
    with fv fp None \<open>page_table b pid = None\<close> show ?thesis
      by (auto simp: fetch_page_def)
  next
    case (Some f)
    from find_victim_inv[OF inv fv[unfolded Some]]
    have "f < length (pages b0)" "pin_count (pages b0 ! f) = 0" by auto
    with fv fp Some \<open>page_table b pid = None\<close> show ?thesis
      by (auto simp: fetch_page_def pin_count_of_def Let_def update_page_def)
  qed
qed

lemma unpin_page_pin_count:
  assumes inv: "bpm_inv b" and up: "unpin_page b pid dty = (b1, ok)"
  shows "pin_count_of b1 pid = pin_count_of b pid - (if ok then 1 else 0)"
proof (cases "page_table b pid")
  case None
  with up show ?thesis by (auto simp: unpin_page_def)
next
  case (Some f)
  with inv have "f < length (pages b)" by (auto simp: bpm_inv_def)
  with Some up show ?thesis
    by (auto simp: unpin_page_def pin_count_of_def Let_def split: if_splits)
qed

lemma pin_call_step_inv: "bpm_inv b \<Longrightarrow> pin_call_step pid b c = (b1, ok) \<Longrightarrow> bpm_inv b1"
proof (cases c)
  case Fetch
  assume "bpm_inv b" "pin_call_step pid b c = (b1, ok)"
  with Fetch bpm_inv_fetch_page[of b pid] show ?thesis by (auto split: prod.splits)
next
  case (Unpin d)
  assume "bpm_inv b" "pin_call_step pid b c = (b1, ok)"
  with Unpin bpm_inv_unpin_page[of b pid d] show ?thesis by auto
qed

lemma pin_call_step_count:
  assumes "bpm_inv b" and "pin_call_step pid b c = (b1, ok)"
  shows "pin_count_of b1 pid =
           pin_count_of b pid + (if ok \<and> c = Fetch then 1 else 0) - (if ok \<and> c \<noteq> Fetch then 1 else 0)"
proof (cases c)
  case Fetch
  obtain b' r where fp: "fetch_page b pid = (b', r)" by (cases "fetch_page b pid")
  with assms Fetch fetch_page_pin_count[OF assms(1) fp] show ?thesis by auto
next
  case (Unpin d)
  with assms unpin_page_pin_count[OF assms(1), of pid d b1 ok] show ?thesis by auto
qed

lemma run_calls_count:
  "bpm_inv b \<Longrightarrow> run_calls pid b cs = (b', nf, nu) \<Longrightarrow>
     pin_count_of b' pid = pin_count_of b pid + nf - nu \<and> bpm_inv b'"
proof (induction cs arbitrary: b b' nf nu)
  case Nil
  then show ?case by simp
next
  case (Cons c cs)
  obtain b1 ok where st: "pin_call_step pid b c = (b1, ok)" by (cases "pin_call_step pid b c")
  obtain b2 nf2 nu2 where rc: "run_calls pid b1 cs = (b2, nf2, nu2)"
    by (cases "run_calls pid b1 cs")
  have inv1: "bpm_inv b1" using pin_call_step_inv[OF Cons.prems(1) st] .
  from Cons.IH[OF inv1 rc] have ih: "pin_count_of b2 pid = pin_count_of b1 pid + nf2 - nu2" "bpm_inv b2"
    by auto
  from pin_call_step_count[OF Cons.prems(1) st] ih Cons.prems(2) st rc
  show ?case by (auto split: if_splits)
qed

text \<open>
  Claim C9. From any reachable pool state, after any sequence of \<^verbatim>\<open>fetch_page\<close> and
  \<^verbatim>\<open>unpin_page\<close> calls on one page id, the page's pin count is its pin count at the start
  (0 for a page that is not resident, as in a fresh pool) plus the number of successful
  fetches minus the number of successful unpins, and it is never negative.
  \<^verbatim>\<open>unpin_page\<close> returns false exactly when the page is not resident or its pin count is 0,
  and then it leaves the pool unchanged.
\<close>

theorem pin_count_is_fetches_minus_unpins:
  assumes "reachable b"
  shows "(\<forall>cs b' nf nu. run_calls pid b cs = (b', nf, nu) \<longrightarrow>
            pin_count_of b' pid = pin_count_of b pid + nf - nu \<and> 0 \<le> pin_count_of b' pid) \<and>
         (\<not> snd (unpin_page b pid is_dirty) \<longleftrightarrow>
            page_table b pid = None \<or> pin_count_of b pid = 0) \<and>
         (\<not> snd (unpin_page b pid is_dirty) \<longrightarrow> fst (unpin_page b pid is_dirty) = b)"
proof (intro conjI allI impI)
  fix cs b' nf nu assume rc: "run_calls pid b cs = (b', nf, nu)"
  from run_calls_count[OF reachable_inv[OF assms] rc]
  show "pin_count_of b' pid = pin_count_of b pid + nf - nu" and "0 \<le> pin_count_of b' pid"
    using pin_count_of_nonneg[of b' pid] by simp_all
next
  have "\<And>f. page_table b pid = Some f \<Longrightarrow> 0 \<le> pin_count (pages b ! f)"
    using reachable_inv[OF assms] by (auto simp: bpm_inv_def)
  then show "(\<not> snd (unpin_page b pid is_dirty)) = (page_table b pid = None \<or> pin_count_of b pid = 0)"
    by (fastforce simp: unpin_page_def pin_count_of_def Let_def split: option.splits)
next
  assume "\<not> snd (unpin_page b pid is_dirty)"
  then show "fst (unpin_page b pid is_dirty) = b"
    by (auto simp: unpin_page_def Let_def split: option.splits if_splits)
qed

text \<open>
  Witness: on a fresh pool of one frame, two fetches and three unpins of page (0, 1); the
  third unpin fails, and the pin count ends at 2 - 2 = 0.
\<close>

theorem pin_count_is_fetches_minus_unpins_witness:
  "reachable (new_BufferPoolManager 1 disk0) \<and>
   snd (run_calls PA (new_BufferPoolManager 1 disk0) [Fetch, Fetch, Unpin False, Unpin True, Unpin False]) = (2, 2) \<and>
   pin_count_of (fst (run_calls PA (new_BufferPoolManager 1 disk0)
      [Fetch, Fetch, Unpin False, Unpin True, Unpin False])) PA = 0 \<and>
   snd (unpin_page (new_BufferPoolManager 1 disk0) PA True) = False \<and>
   page_table (new_BufferPoolManager 1 disk0) PA = None"
proof -
  let ?b = "new_BufferPoolManager 1 disk0"
  let ?cs = "[Fetch, Fetch, Unpin False, Unpin True, Unpin False]"
  have r: "reachable ?b" by (rule r_new)
  have e: "snd (run_calls PA ?b ?cs) = (2, 2)"
    by (simp add: pool_defs PA_def)
  then have rc: "run_calls PA ?b ?cs = (fst (run_calls PA ?b ?cs), 2, 2)"
    by (metis prod.collapse)
  have z: "pin_count_of ?b PA = 0" "page_table ?b PA = None"
    by (simp_all add: pin_count_of_def new_BufferPoolManager_def)
  have T: "\<forall>cs b' nf nu. run_calls PA ?b cs = (b', nf, nu) \<longrightarrow>
            pin_count_of b' PA = pin_count_of ?b PA + nf - nu \<and> 0 \<le> pin_count_of b' PA"
    using pin_count_is_fetches_minus_unpins[OF r, of PA True] by (rule conjunct1)
  from T rc have "pin_count_of (fst (run_calls PA ?b ?cs)) PA = pin_count_of ?b PA + 2 - 2"
    by blast
  with z(1) have p0: "pin_count_of (fst (run_calls PA ?b ?cs)) PA = 0" by linarith
  have u: "snd (unpin_page ?b PA True) = False"
    by (simp add: unpin_page_def new_BufferPoolManager_def)
  from r e p0 u z(2) show ?thesis by blast
qed

subsection \<open>C10: the scan and a page the pool cannot supply\<close>

text \<open>
  Claim C10, as stated, says that at every scan position whose page is in range and cannot
  be supplied, \<^verbatim>\<open>next\<close> reads the bitmap through the empty handle. At the last slot of a
  page the inner loop of \<^verbatim>\<open>next\<close> is not entered: \<^verbatim>\<open>next\<close> leaves the page without
  touching the handle. With page 1 not suppliable and the scan at its slot 3 (of 4),
  \<^verbatim>\<open>next\<close> returns normally, at slot 1 of page 2.
\<close>

theorem scan_next_skips_unsupplied_page:
  "snd (fetch_page_handle exhausted_file 1) = None \<and>
   (0::int) \<le> 1 \<and> 1 < num_pages (file_hdr exhausted_file) \<and>
   rid_of (scan_next \<lparr>file_handle = exhausted_file, rid = Rid 1 3\<rparr>) = Some (Rid 2 1)"
  by code_simp

text \<open>
  Claim C10, amended. At every scan position whose page number is within
  \<open>[0, num_pages)\<close> and whose page \<^verbatim>\<open>fetch_page_handle\<close> cannot supply, \<^verbatim>\<open>is_end\<close> reads
  \<^verbatim>\<open>page_hdr->num_records\<close> through the empty handle, and \<^verbatim>\<open>next\<close> reads the bitmap
  through it whenever the slot number is below \<open>num_records_per_page - 1\<close> (in particular
  from the position before the first slot, as in the constructor).
\<close>

theorem scan_null_handle_access:
  assumes "0 \<le> pno" and "pno < num_pages (file_hdr fh)"
    and "snd (fetch_page_handle fh pno) = None"
  shows "(slot < num_records_per_page (file_hdr fh) - 1 \<longrightarrow>
            scan_next \<lparr>file_handle = fh, rid = Rid pno slot\<rparr> = Inl NullPageHandle) \<and>
         is_end \<lparr>file_handle = fh, rid = Rid pno slot\<rparr> = Inl NullPageHandle"
proof -
  obtain b where fp: "fetch_page_handle fh pno = (b, None)"
    using assms(3) by (cases "fetch_page_handle fh pno") auto
  have "slot < num_records_per_page (file_hdr fh) - 1 \<Longrightarrow>
          next_from fh pno slot = Inl NullPageHandle"
    using assms(2) fp by (subst next_from.simps) (simp add: Let_def)
  moreover have "is_end \<lparr>file_handle = fh, rid = Rid pno slot\<rparr> = Inl NullPageHandle"
    using assms(2) fp by (simp add: is_end_def Let_def)
  ultimately show ?thesis by (simp add: scan_next_def)
qed

text \<open>Witness: the scan of the exhausted file at the position the constructor starts from.\<close>

theorem scan_null_handle_access_witness:
  "(0::int) \<le> 1 \<and> 1 < num_pages (file_hdr exhausted_file) \<and>
   snd (fetch_page_handle exhausted_file 1) = None \<and>
   (-1::int) < num_records_per_page (file_hdr exhausted_file) - 1 \<and>
   scan_next \<lparr>file_handle = exhausted_file, rid = Rid 1 (-1)\<rparr> = Inl NullPageHandle \<and>
   is_end \<lparr>file_handle = exhausted_file, rid = Rid 1 (-1)\<rparr> = Inl NullPageHandle \<and>
   new_RmScan exhausted_file = Inl NullPageHandle"
proof -
  have a: "(0::int) \<le> 1" "1 < num_pages (file_hdr exhausted_file)"
    "(-1::int) < num_records_per_page (file_hdr exhausted_file) - 1"
    by (simp_all add: exhausted_file_def scan_file_def)
  have f: "snd (fetch_page_handle exhausted_file 1) = None" by code_simp
  from scan_null_handle_access[OF a(1,2) f, of "-1"] a f show ?thesis
    by (simp add: new_RmScan_def RM_FIRST_RECORD_PAGE_def)
qed

end
